theory Spec2Isabelle
  imports Complex_Main "HOL-Library.AList"
begin

section \<open>Data model\<close>

subsection \<open>Plain JavaScript values\<close>

text \<open>
  A plain value handed to the value converter is a JavaScript object graph: primitives are
  values, arrays and objects are heap cells with an identity. The cycle check of
  \<^verbatim>\<open>toYDataType\<close> is identity based (a \<^verbatim>\<open>WeakSet\<close>), so the model keeps the identities:
  a value is a primitive or a reference into a heap of arrays and objects. An object is the
  list of its entries in enumeration order (\<^verbatim>\<open>Object.entries\<close>). A number is a finite
  number, kept exactly as a rational.
\<close>

type_synonym addr = nat

datatype prim = PNull | PBool bool | PNum rat | PStr string

datatype jsval = Prim prim | Ref addr | Undefined

datatype jsobj = JSArray "jsval list" | JSObject "(string \<times> jsval) list"

type_synonym heap = "(addr \<times> jsobj) list"

text \<open>
  A snapshot, and every plain projection of a container, is a value without identity: the
  type \<^verbatim>\<open>JSONValue\<close> of the library, plus \<^verbatim>\<open>undefined\<close> for what
  \<^verbatim>\<open>toPlainValue\<close> passes through unchanged.
\<close>

datatype json = JPrim prim | JArr "json list" | JObj "(string \<times> json) list" | JUndefined

subsection \<open>CRDT containers\<close>

text \<open>
  Modelled from the spec: the CRDT containers of section 3 (Yjs's \<^verbatim>\<open>Y.Map\<close> and
  \<^verbatim>\<open>Y.Array\<close>, whose code is not part of the repository). A container is a tree node that
  owns its children; every container carries the identity it got when it was allocated
  (\<^verbatim>\<open>new Y.Map()\<close>, \<^verbatim>\<open>new Y.Array()\<close>), drawn from a counter.

  A container belongs to a document or it does not. \<open>YNewArray\<close> and \<open>YNewMap\<close> are the
  containers that \<^verbatim>\<open>new Y.Array()\<close> and \<^verbatim>\<open>new Y.Map()\<close> make: they belong to no
  document, what is written to them is kept aside as their preliminary content, and they
  show nothing of it: \<^verbatim>\<open>get\<close> is \<^verbatim>\<open>undefined\<close> and \<^verbatim>\<open>toJSON\<close> is empty.
  \<open>YArray\<close> and \<open>YMap\<close> are the containers of a document. A new container becomes one
  of the document when it is set or inserted into a container of the document: it is
  integrated, and its preliminary content with it. A container of a document holds
  primitives and containers of the document only.
\<close>

type_synonym yid = nat

datatype ynode =
    YPrim prim
  | YArray yid "ynode list"
  | YMap yid "(string \<times> ynode) list"
  | YUndefined
  | YNewArray yid "ynode list"
  | YNewMap yid "(string \<times> ynode) list"

text \<open>The errors thrown; all are \<^verbatim>\<open>Error\<close> objects that differ in their class or
  message. \<open>TypeError\<close> and \<open>RangeError\<close> are the JavaScript runtime's, \<open>LengthExceeded\<close>
  is Yjs's. \<open>NotModelled\<close> is no error of the code: it marks the inputs on which this
  model does not follow the code.\<close>

datatype error =
    CircularReference       \<comment> \<open>\<^verbatim>\<open>Circular reference detected in JSON structure\<close>\<close>
  | NotImplemented          \<comment> \<open>\<^verbatim>\<open>Not implemented: ...\<close>\<close>
  | InvalidConfiguration    \<comment> \<open>\<^verbatim>\<open>patchesOptions must be a boolean or an object\<close>\<close>
  | TypeError
  | LengthExceeded
  | RangeError
  | NotModelled

fun is_YMap :: "ynode \<Rightarrow> bool" where
  "is_YMap (YMap i es) = True"
| "is_YMap (YNewMap i es) = True"
| "is_YMap n = False"

fun is_YArray :: "ynode \<Rightarrow> bool" where
  "is_YArray (YArray i ys) = True"
| "is_YArray (YNewArray i ys) = True"
| "is_YArray n = False"

text \<open>\<^verbatim>\<open>container.doc\<close> is not \<^verbatim>\<open>null\<close>.\<close>

fun y_doc :: "ynode \<Rightarrow> bool" where
  "y_doc (YMap i es) = True"
| "y_doc (YArray i ys) = True"
| "y_doc n = False"

text \<open>
  The integration of a value into a document. A primitive and \<^verbatim>\<open>undefined\<close> are stored
  as they are. A new keyed container sets its preliminary entries one after the other; a
  new sequence container inserts its preliminary content in one call of \<^verbatim>\<open>insert\<close>.

  \<open>insert_generics buf acc zs\<close> is that insertion of the content \<open>zs\<close> into a sequence
  container of a document: primitives are collected in the buffer \<open>buf\<close>, which is
  written out before a container is inserted and at the end; \<^verbatim>\<open>undefined\<close> is no content
  of a sequence and throws a \<open>TypeError\<close>, which loses the buffer; \<open>acc\<close> is what has been
  inserted. An error inside a container that is being integrated leaves that container
  where it was put, with the content integrated so far. A container that already belongs
  to a document is not integrated again.
\<close>

fun integrate :: "ynode \<Rightarrow> ynode \<times> error option"
  and integrate_entries ::
    "(string \<times> ynode) list \<Rightarrow> (string \<times> ynode) list \<Rightarrow> (string \<times> ynode) list \<times> error option"
  and insert_generics :: "ynode list \<Rightarrow> ynode list \<Rightarrow> ynode list \<Rightarrow> ynode list \<times> error option"
where
  "integrate (YNewMap i es) = (let (ms, e) = integrate_entries [] es in (YMap i ms, e))"
| "integrate (YNewArray i zs) = (let (ys, e) = insert_generics [] [] zs in (YArray i ys, e))"
| "integrate (YPrim p) = (YPrim p, None)"
| "integrate YUndefined = (YUndefined, None)"
| "integrate (YMap i es) = (YMap i es, None)"
| "integrate (YArray i ys) = (YArray i ys, None)"
| "integrate_entries acc [] = (acc, None)"
| "integrate_entries acc ((k, y) # es) =
     (case integrate y of
        (y', Some e) \<Rightarrow> (AList.update k y' acc, Some e)
      | (y', None) \<Rightarrow> integrate_entries (AList.update k y' acc) es)"
| "insert_generics buf acc [] = (acc @ buf, None)"
| "insert_generics buf acc (z # zs) =
     (case z of
        YUndefined \<Rightarrow> (acc, Some TypeError)
      | YPrim p \<Rightarrow> insert_generics (buf @ [z]) acc zs
      | _ \<Rightarrow>
          (case integrate z of
             (z', Some e) \<Rightarrow> (acc @ buf @ [z'], Some e)
           | (z', None) \<Rightarrow> insert_generics [] (acc @ buf @ [z']) zs))"

text \<open>\<^verbatim>\<open>Y.Map.set\<close>, \<^verbatim>\<open>Y.Map.delete\<close>, \<^verbatim>\<open>Y.Map.clear\<close> and \<^verbatim>\<open>Y.Array.push\<close>: on a
  container of a document, and on the preliminary content of a new one.\<close>

fun y_set :: "ynode \<Rightarrow> string \<Rightarrow> ynode \<Rightarrow> ynode \<times> error option" where
  "y_set (YMap i es) k y = (let (y', e) = integrate y in (YMap i (AList.update k y' es), e))"
| "y_set (YNewMap i es) k y = (YNewMap i (AList.update k y es), None)"
| "y_set n k y = (n, None)"

fun y_delete_key :: "ynode \<Rightarrow> string \<Rightarrow> ynode" where
  "y_delete_key (YMap i es) k = YMap i (AList.delete k es)"
| "y_delete_key (YNewMap i es) k = YNewMap i (AList.delete k es)"
| "y_delete_key n k = n"

fun y_clear :: "ynode \<Rightarrow> ynode" where
  "y_clear (YMap i es) = YMap i []"
| "y_clear (YNewMap i es) = YNewMap i []"
| "y_clear n = n"

fun y_push :: "ynode \<Rightarrow> ynode list \<Rightarrow> ynode \<times> error option" where
  "y_push (YArray i ys) zs = (let (ins, e) = insert_generics [] [] zs in (YArray i (ys @ ins), e))"
| "y_push (YNewArray i ys) zs = (YNewArray i (ys @ zs), None)"
| "y_push n zs = (n, None)"

text \<open>The projection \<^verbatim>\<open>toJSON\<close>: deep on a container of a document, empty on a new
  container.\<close>

fun toJSON :: "ynode \<Rightarrow> json" where
  "toJSON (YPrim p) = JPrim p"
| "toJSON (YArray i ys) = JArr (map toJSON ys)"
| "toJSON (YMap i es) = JObj (map (\<lambda>(k, y). (k, toJSON y)) es)"
| "toJSON YUndefined = JUndefined"
| "toJSON (YNewArray i ys) = JArr []"
| "toJSON (YNewMap i es) = JObj []"

text \<open>
  Two notions to state what integration does. \<open>attached y\<close> is \<open>y\<close> with every new
  container in it made a container of the document, content and all. \<open>fresh y\<close> holds of
  a primitive and of a new container whose preliminary content is fresh, member by member,
  with no key written twice: the values that integration takes whole.
\<close>

fun attached :: "ynode \<Rightarrow> ynode" where
  "attached (YNewMap i es) = YMap i (map (\<lambda>(k, y). (k, attached y)) es)"
| "attached (YNewArray i zs) = YArray i (map attached zs)"
| "attached (YPrim p) = YPrim p"
| "attached YUndefined = YUndefined"
| "attached (YMap i es) = YMap i es"
| "attached (YArray i ys) = YArray i ys"

fun fresh :: "ynode \<Rightarrow> bool" where
  "fresh (YPrim p) = True"
| "fresh (YNewMap i es) = (distinct (map fst es) \<and> list_all (\<lambda>(k, y). fresh y) es)"
| "fresh (YNewArray i zs) = list_all fresh zs"
| "fresh y = False"

section \<open>Value converter (util.ts)\<close>

definition isJSONPrimitive :: "heap \<Rightarrow> jsval \<Rightarrow> bool" where
  "isJSONPrimitive h v = (case v of Prim p \<Rightarrow> True | _ \<Rightarrow> False)"

definition isJSONArray :: "heap \<Rightarrow> jsval \<Rightarrow> bool" where
  "isJSONArray h v =
     (case v of
        Ref a \<Rightarrow> (case map_of h a of Some (JSArray vs) \<Rightarrow> True | _ \<Rightarrow> False)
      | _ \<Rightarrow> False)"

text \<open>\<^verbatim>\<open>!isJSONArray(v) && typeof v === 'object'\<close>: the type of \<^verbatim>\<open>null\<close> is
  \<^verbatim>\<open>'object'\<close> as well.\<close>

definition isJSONObject :: "heap \<Rightarrow> jsval \<Rightarrow> bool" where
  "isJSONObject h v =
     (\<not> isJSONArray h v \<and>
      (case v of
         Prim PNull \<Rightarrow> True
       | Ref a \<Rightarrow> (case map_of h a of Some ob \<Rightarrow> True | None \<Rightarrow> False)
       | _ \<Rightarrow> False))"

text \<open>
  \<^verbatim>\<open>toYDataType(v, seen)\<close> with \<^verbatim>\<open>applyJsonArray\<close> and \<^verbatim>\<open>applyJsonObject\<close>. The set
  \<open>seen\<close> is one mutable \<^verbatim>\<open>WeakSet\<close> shared by the whole call tree and never shrinks: each
  function returns the identities it added, and its caller goes on with them added to
  \<open>seen\<close>. The counter \<open>n\<close> is the next free container identity. \<open>convItems\<close> is
  \<^verbatim>\<open>source.map((item) => toYDataType(item, seen))\<close>. The tests \<open>isJSONPrimitive\<close>,
  \<open>isJSONArray\<close> and \<open>isJSONObject\<close> of the source, in this order, are the cases of the
  value and of the heap cell it refers to; a reference to no cell of the heap stands for a
  value of no JSON type and takes the last branch, as \<^verbatim>\<open>undefined\<close> does. The container
  returned is a new one: it belongs to no document. When a container operation throws, the
  container that was being filled is dropped with the call.
\<close>

definition unseen :: "heap \<Rightarrow> addr list \<Rightarrow> nat" where
  "unseen h seen = card (fst ` set h - set seen)"

lemma unseen_Cons_less:
  assumes "map_of h a = Some ob" and "a \<notin> set seen"
  shows "unseen h (a # seen) < unseen h seen"
proof -
  from assms(1) have "a \<in> fst ` set h"
    by (metis map_of_eq_None_iff option.distinct(1))
  with assms(2) have "fst ` set h - set (a # seen) \<subset> fst ` set h - set seen"
    by auto
  then show ?thesis
    unfolding unseen_def by (intro psubset_card_mono) auto
qed

lemma unseen_append_le: "unseen h (added @ seen) \<le> unseen h seen"
  unfolding unseen_def by (intro card_mono) auto

function toYDataType ::
    "heap \<Rightarrow> jsval \<Rightarrow> addr list \<Rightarrow> yid \<Rightarrow> error + (ynode \<times> addr list \<times> yid)"
  and convItems ::
    "heap \<Rightarrow> jsval list \<Rightarrow> addr list \<Rightarrow> yid \<Rightarrow> error + (ynode list \<times> addr list \<times> yid)"
  and applyJsonObject ::
    "heap \<Rightarrow> ynode \<Rightarrow> (string \<times> jsval) list \<Rightarrow> addr list \<Rightarrow> yid
       \<Rightarrow> error + (ynode \<times> addr list \<times> yid)"
where
  "toYDataType h v seen n =
     (case v of
        Prim p \<Rightarrow> Inr (YPrim p, [], n)
      | Undefined \<Rightarrow> Inr (YUndefined, [], n)
      | Ref a \<Rightarrow>
          (case map_of h a of
             None \<Rightarrow> Inr (YUndefined, [], n)
           | Some (JSArray vs) \<Rightarrow>
               if a \<in> set seen then Inl CircularReference
               else (case convItems h vs (a # seen) (Suc n) of
                       Inl e \<Rightarrow> Inl e
                     | Inr (ys, added, n') \<Rightarrow>
                         (case y_push (YNewArray n []) ys of
                            (arr, Some e) \<Rightarrow> Inl e
                          | (arr, None) \<Rightarrow> Inr (arr, added @ [a], n')))
           | Some (JSObject es) \<Rightarrow>
               if a \<in> set seen then Inl CircularReference
               else (case applyJsonObject h (YNewMap n []) es (a # seen) (Suc n) of
                       Inl e \<Rightarrow> Inl e
                     | Inr (m, added, n') \<Rightarrow> Inr (m, added @ [a], n'))))"
| "convItems h [] seen n = Inr ([], [], n)"
| "convItems h (v # vs) seen n =
     (case toYDataType h v seen n of
        Inl e \<Rightarrow> Inl e
      | Inr (y, added, n') \<Rightarrow>
          (case convItems h vs (added @ seen) n' of
             Inl e \<Rightarrow> Inl e
           | Inr (ys, added', n'') \<Rightarrow> Inr (y # ys, added' @ added, n'')))"
| "applyJsonObject h dest [] seen n = Inr (dest, [], n)"
| "applyJsonObject h dest ((k, v) # es) seen n =
     (case toYDataType h v seen n of
        Inl e \<Rightarrow> Inl e
      | Inr (y, added, n') \<Rightarrow>
          (case y_set dest k y of
             (d, Some e) \<Rightarrow> Inl e
           | (d, None) \<Rightarrow>
               (case applyJsonObject h d es (added @ seen) n' of
                  Inl e \<Rightarrow> Inl e
                | Inr (m, added', n'') \<Rightarrow> Inr (m, added' @ added, n''))))"
  by pat_completeness auto

termination
  apply (relation "inv_image (less_than <*lex*> less_than)
     (\<lambda>x. case x of
        Inl (h, v, seen, n) \<Rightarrow> (unseen h seen, 0)
      | Inr (Inl (h, vs, seen, n)) \<Rightarrow> (unseen h seen, Suc (length vs))
      | Inr (Inr (h, dest, es, seen, n)) \<Rightarrow> (unseen h seen, Suc (length es)))")
       apply (auto simp: unseen_Cons_less)
  using unseen_append_le le_neq_implies_less apply metis+
  done

declare toYDataType.simps [simp del]

lemma toYDataType_Prim [simp]: "toYDataType h (Prim p) seen n = Inr (YPrim p, [], n)"
  by (simp add: toYDataType.simps)

lemma toYDataType_Undefined [simp]: "toYDataType h Undefined seen n = Inr (YUndefined, [], n)"
  by (simp add: toYDataType.simps)

lemma toYDataType_Ref [simp]:
  "toYDataType h (Ref a) seen n =
     (case map_of h a of
        None \<Rightarrow> Inr (YUndefined, [], n)
      | Some (JSArray vs) \<Rightarrow>
          if a \<in> set seen then Inl CircularReference
          else (case convItems h vs (a # seen) (Suc n) of
                  Inl e \<Rightarrow> Inl e
                | Inr (ys, added, n') \<Rightarrow> Inr (YNewArray n ys, added @ [a], n'))
      | Some (JSObject es) \<Rightarrow>
          if a \<in> set seen then Inl CircularReference
          else (case applyJsonObject h (YNewMap n []) es (a # seen) (Suc n) of
                  Inl e \<Rightarrow> Inl e
                | Inr (m, added, n') \<Rightarrow> Inr (m, added @ [a], n')))"
  by (simp add: toYDataType.simps split: option.splits jsobj.splits sum.splits)

text \<open>\<^verbatim>\<open>applyJsonArray(dest, source, seen)\<close>: convert every item, then push them all.\<close>

definition applyJsonArray ::
    "heap \<Rightarrow> ynode \<Rightarrow> jsval list \<Rightarrow> addr list \<Rightarrow> yid \<Rightarrow> error + (ynode \<times> addr list \<times> yid)"
where
  "applyJsonArray h dest source seen n =
     (case convItems h source seen n of
        Inl e \<Rightarrow> Inl e
      | Inr (ys, added, n') \<Rightarrow>
          (case y_push dest ys of
             (arr, Some e) \<Rightarrow> Inl e
           | (arr, None) \<Rightarrow> Inr (arr, added, n')))"

definition toPlainValue :: "ynode \<Rightarrow> json" where
  "toPlainValue v =
     (if is_YMap v \<or> is_YArray v then toJSON v
      else (case v of YPrim p \<Rightarrow> JPrim p | _ \<Rightarrow> JUndefined))"

subsection \<open>The tree a plain value denotes\<close>

text \<open>
  \<open>unfolds h v as t\<close>: in heap \<open>h\<close> the value \<open>v\<close> unfolds to the finite tree \<open>t\<close>, and
  \<open>as\<close> lists the identities of the arrays and objects met on the way, in preorder, once
  per visit. A value has such an unfolding exactly when no cycle is reachable from it; the
  list \<open>as\<close> has a repetition exactly when some array or object is reachable along two
  paths.
\<close>

inductive unfolds :: "heap \<Rightarrow> jsval \<Rightarrow> addr list \<Rightarrow> json \<Rightarrow> bool"
  and unfolds_list :: "heap \<Rightarrow> jsval list \<Rightarrow> addr list \<Rightarrow> json list \<Rightarrow> bool"
where
  u_prim: "unfolds h (Prim p) [] (JPrim p)"
| u_array: "map_of h a = Some (JSArray vs) \<Longrightarrow> unfolds_list h vs as ts
    \<Longrightarrow> unfolds h (Ref a) (a # as) (JArr ts)"
| u_object: "map_of h a = Some (JSObject es) \<Longrightarrow> distinct (map fst es)
    \<Longrightarrow> unfolds_list h (map snd es) as ts
    \<Longrightarrow> unfolds h (Ref a) (a # as) (JObj (zip (map fst es) ts))"
| u_nil: "unfolds_list h [] [] []"
| u_cons: "unfolds h v as t \<Longrightarrow> unfolds_list h vs bs ts
    \<Longrightarrow> unfolds_list h (v # vs) (as @ bs) (t # ts)"

text \<open>A value denotes a tree when it unfolds to it and no array or object is met twice
  on the way.\<close>

definition denotes_tree :: "heap \<Rightarrow> jsval \<Rightarrow> json \<Rightarrow> bool" where
  "denotes_tree h v t = (\<exists>as. unfolds h v as t \<and> distinct as)"

text \<open>
  The arrays and objects of the heap refer to each other: \<open>members h a\<close> are the items of
  array \<open>a\<close>, or the property values of object \<open>a\<close>, and \<open>(a, b) \<in> refers h\<close> when one
  of them is a reference to the array or object \<open>b\<close>. A cycle goes through \<open>c\<close> when
  \<open>(c, c)\<close> is in the transitive closure of \<open>refers h\<close>: the object contains itself, directly
  or through nested arrays and objects.
\<close>

definition members :: "heap \<Rightarrow> addr \<Rightarrow> jsval list" where
  "members h a =
     (case map_of h a of
        Some (JSArray vs) \<Rightarrow> vs
      | Some (JSObject es) \<Rightarrow> map snd es
      | None \<Rightarrow> [])"



section \<open>Patch applier (bind.ts)\<close>

text \<open>
  Modelled from the spec: the remaining container operations of Yjs the patch applier
  calls. \<^verbatim>\<open>get\<close> of a missing key or index is \<^verbatim>\<open>undefined\<close>; \<^verbatim>\<open>Y.Array.insert\<close>
  past the end throws; \<^verbatim>\<open>Y.Array.delete(index, length)\<close> deletes what is there from
  \<open>index\<close> on and throws when fewer than \<open>length\<close> elements were there. On a new
  container \<^verbatim>\<open>insert\<close> and \<^verbatim>\<open>delete\<close> are the \<^verbatim>\<open>splice\<close> of JavaScript on the
  preliminary content, which throws nothing. \<open>y_length\<close> is the \<^verbatim>\<open>length\<close> of a sequence
  container of a document; the model does not say what the \<^verbatim>\<open>length\<close> of a new one
  is, and the two places of the patch applier that read it are not modelled for a new
  container.
\<close>

datatype key = KStr string | KNum nat

fun y_length :: "ynode \<Rightarrow> nat" where
  "y_length (YArray i ys) = length ys"
| "y_length n = 0"

fun y_get :: "ynode \<Rightarrow> key \<Rightarrow> ynode" where
  "y_get (YMap i es) (KStr k) = (case map_of es k of Some y \<Rightarrow> y | None \<Rightarrow> YUndefined)"
| "y_get (YArray i ys) (KNum j) = (if j < length ys then ys ! j else YUndefined)"
| "y_get n k = YUndefined"

fun y_insert :: "ynode \<Rightarrow> nat \<Rightarrow> ynode list \<Rightarrow> ynode \<times> error option" where
  "y_insert (YArray i ys) j zs =
     (if j \<le> length ys then
        (let (ins, e) = insert_generics [] [] zs in (YArray i (take j ys @ ins @ drop j ys), e))
      else (YArray i ys, Some LengthExceeded))"
| "y_insert (YNewArray i ys) j zs = (YNewArray i (take j ys @ zs @ drop j ys), None)"
| "y_insert n j zs = (n, None)"

fun y_delete :: "ynode \<Rightarrow> nat \<Rightarrow> nat \<Rightarrow> ynode \<times> error option" where
  "y_delete (YArray i ys) j len =
     (YArray i (take j ys @ drop (j + len) ys),
      if length ys < j + len \<and> 0 < len then Some LengthExceeded else None)"
| "y_delete (YNewArray i ys) j len = (YNewArray i (take j ys @ drop (j + len) ys), None)"
| "y_delete n j len = (n, None)"

text \<open>
  The containers are mutated in place through the reference \<open>base\<close> that the navigation
  loop reaches; a container has one parent, so the mutation is the replacement of the
  subtree at the path walked. \<open>navigate\<close> is the loop \<^verbatim>\<open>base = base.get(step)\<close>, which
  throws a \<open>TypeError\<close> when \<open>base\<close> is not a container; \<open>write_back\<close> puts the mutated
  container where the loop found it.
\<close>

fun navigate :: "ynode \<Rightarrow> key list \<Rightarrow> error + ynode" where
  "navigate base [] = Inr base"
| "navigate base (step # steps) =
     (if is_YMap base \<or> is_YArray base then navigate (y_get base step) steps
      else Inl TypeError)"

fun y_put :: "ynode \<Rightarrow> key \<Rightarrow> ynode \<Rightarrow> ynode" where
  "y_put (YMap i es) (KStr k) c =
     (if k \<in> fst ` set es then YMap i (AList.update k c es) else YMap i es)"
| "y_put (YArray i ys) (KNum j) c = YArray i (ys[j := c])"
| "y_put n k c = n"

fun write_back :: "ynode \<Rightarrow> key list \<Rightarrow> ynode \<Rightarrow> ynode" where
  "write_back tree [] b = b"
| "write_back tree (step # steps) b = y_put tree step (write_back (y_get tree step) steps b)"

datatype patch_op = Add | Replace | Remove

record patch =
  p_op :: patch_op
  p_path :: "key list"
  p_value :: jsval

text \<open>The CRDT tree under the bound root container, with the allocation counter.\<close>

record ystate =
  y_root :: ynode
  y_next :: yid

text \<open>
  The two loops that convert the members of a replacement value, each member with a
  \<open>seen\<close> set of its own (\<^verbatim>\<open>toYDataType(v)\<close> with one argument):
  \<^verbatim>\<open>target.set(k, toYDataType(value[k]))\<close> for every key, which stops at the first member
  that throws and leaves the keys set so far, and \<^verbatim>\<open>value.map((v) => toYDataType(v))\<close>.
  Identities allocated by a conversion that throws belong to containers nothing refers to;
  the counter is not advanced for them.
\<close>

fun set_converted ::
    "heap \<Rightarrow> ynode \<Rightarrow> (string \<times> jsval) list \<Rightarrow> yid \<Rightarrow> (ynode \<times> yid) \<times> error option" where
  "set_converted h dest [] n = ((dest, n), None)"
| "set_converted h dest ((k, v) # es) n =
     (case toYDataType h v [] n of
        Inl e \<Rightarrow> ((dest, n), Some e)
      | Inr (y, added, n') \<Rightarrow>
          (case y_set dest k y of
             (d, Some e) \<Rightarrow> ((d, n'), Some e)
           | (d, None) \<Rightarrow> set_converted h d es n'))"

fun convEach :: "heap \<Rightarrow> jsval list \<Rightarrow> yid \<Rightarrow> error + (ynode list \<times> yid)" where
  "convEach h [] n = Inr ([], n)"
| "convEach h (v # vs) n =
     (case toYDataType h v [] n of
        Inl e \<Rightarrow> Inl e
      | Inr (y, added, n') \<Rightarrow>
          (case convEach h vs n' of
             Inl e \<Rightarrow> Inl e
           | Inr (ys, n'') \<Rightarrow> Inr (y # ys, n'')))"

text \<open>The members \<^verbatim>\<open>for (const k in value)\<close> enumerates (none for \<^verbatim>\<open>null\<close>), the result
  of \<^verbatim>\<open>Object.entries(value)\<close> (a \<open>TypeError\<close> for \<^verbatim>\<open>null\<close>), and the items of an array
  value; each is used only under the guard \<open>isJSONObject\<close> or \<open>isJSONArray\<close>.\<close>

definition for_in :: "heap \<Rightarrow> jsval \<Rightarrow> (string \<times> jsval) list" where
  "for_in h v =
     (case v of
        Ref a \<Rightarrow> (case map_of h a of Some (JSObject es) \<Rightarrow> es | _ \<Rightarrow> [])
      | _ \<Rightarrow> [])"

definition object_entries :: "heap \<Rightarrow> jsval \<Rightarrow> error + (string \<times> jsval) list" where
  "object_entries h v =
     (case v of
        Ref a \<Rightarrow> (case map_of h a of Some (JSObject es) \<Rightarrow> Inr es | _ \<Rightarrow> Inr [])
      | Prim PNull \<Rightarrow> Inl TypeError
      | Undefined \<Rightarrow> Inl TypeError
      | _ \<Rightarrow> Inr [])"

definition array_items :: "heap \<Rightarrow> jsval \<Rightarrow> jsval list" where
  "array_items h v =
     (case v of
        Ref a \<Rightarrow> (case map_of h a of Some (JSArray vs) \<Rightarrow> vs | _ \<Rightarrow> [])
      | _ \<Rightarrow> [])"

text \<open>
  The number that the comparisons \<^verbatim>\<open>value < base.length\<close> and \<^verbatim>\<open>value > base.length\<close>
  of a \<^verbatim>\<open>length\<close> patch take their left operand for. Mutative emits a number; \<^verbatim>\<open>null\<close>
  and the booleans are coerced as JavaScript does, \<^verbatim>\<open>undefined\<close> is \<^verbatim>\<open>NaN\<close> (\<open>None\<close>),
  for which both comparisons are false, and a string of decimal digits is the number it
  writes (the empty string is \<open>0\<close>). The conversion of any other string, and of an array or
  an object, is not modelled.
\<close>

definition digit_value :: "char \<Rightarrow> nat option" where
  "digit_value c =
     (let n = (of_char c :: nat) in if 48 \<le> n \<and> n \<le> 57 then Some (n - 48) else None)"

fun digits_value :: "nat \<Rightarrow> string \<Rightarrow> nat option" where
  "digits_value acc [] = Some acc"
| "digits_value acc (c # cs) =
     (case digit_value c of
        None \<Rightarrow> None
      | Some d \<Rightarrow> digits_value (10 * acc + d) cs)"

definition to_number :: "jsval \<Rightarrow> error + rat option" where
  "to_number v =
     (case v of
        Prim (PNum q) \<Rightarrow> Inr (Some q)
      | Prim PNull \<Rightarrow> Inr (Some 0)
      | Prim (PBool b) \<Rightarrow> Inr (Some (if b then 1 else 0))
      | Prim (PStr s) \<Rightarrow>
          (case digits_value 0 s of
             Some k \<Rightarrow> Inr (Some (of_nat k))
           | None \<Rightarrow> Inl NotModelled)
      | Undefined \<Rightarrow> Inr None
      | Ref a \<Rightarrow> Inl NotModelled)"

text \<open>
  The branches of \<^verbatim>\<open>defaultApplyPatch\<close> after the navigation, on the container \<open>base\<close>
  and the last path segment \<open>property\<close>. The result is the container after the mutations
  done, the allocation counter, and the error thrown, if any. In the \<^verbatim>\<open>length\<close> branch,
  \<^verbatim>\<open>new Array(n)\<close> throws a \<open>RangeError\<close> unless \<open>n\<close> is an integer from \<open>0\<close> to
  \<open>4294967295\<close>; a negative index deletes from the start; what Yjs does with an index
  that is no integer is not modelled.
\<close>

definition apply_at_base ::
    "heap \<Rightarrow> ynode \<Rightarrow> yid \<Rightarrow> patch_op \<Rightarrow> key \<Rightarrow> jsval \<Rightarrow> (ynode \<times> yid) \<times> error option" where
  "apply_at_base h base n opr property v =
     (case property of
        KStr k \<Rightarrow>
          if is_YMap base then
            (case opr of
               Remove \<Rightarrow> ((y_delete_key base k, n), None)
             | _ \<Rightarrow>
                (case toYDataType h v [] n of
                   Inl e \<Rightarrow> ((base, n), Some e)
                 | Inr (y, added, n') \<Rightarrow> (let (b, err) = y_set base k y in ((b, n'), err))))
          else if is_YArray base \<and> k = ''length'' then
            (if \<not> y_doc base then ((base, n), Some NotModelled)
             else case to_number v of
               Inl e \<Rightarrow> ((base, n), Some e)
             | Inr None \<Rightarrow> ((base, n), None)
             | Inr (Some q) \<Rightarrow>
                 if q < of_nat (y_length base) then
                   (if of_int \<lfloor>q\<rfloor> = q then
                      (let (b, err) =
                             y_delete base (nat \<lfloor>q\<rfloor>) (nat (int (y_length base) - \<lfloor>q\<rfloor>))
                       in ((b, n), err))
                    else ((base, n), Some NotModelled))
                 else if q > of_nat (y_length base) then
                   (if of_int \<lfloor>q\<rfloor> = q \<and> \<lfloor>q\<rfloor> - int (y_length base) \<le> 4294967295 then
                      (let (b, err) =
                             y_push base
                               (replicate (nat (\<lfloor>q\<rfloor> - int (y_length base))) (YPrim PNull))
                       in ((b, n), err))
                    else ((base, n), Some RangeError))
                 else ((base, n), None))
          else ((base, n), Some NotImplemented)
      | KNum j \<Rightarrow>
          if is_YArray base then
            (case opr of
               Add \<Rightarrow>
                (case toYDataType h v [] n of
                   Inl e \<Rightarrow> ((base, n), Some e)
                 | Inr (y, added, n') \<Rightarrow>
                     (let (b, err) = y_insert base j [y] in ((b, n'), err)))
             | Replace \<Rightarrow>
                (let oldValue = y_get base property in
                 if is_YMap oldValue \<and> isJSONObject h v then
                   (case object_entries h v of
                      Inl e \<Rightarrow> ((y_put base property (y_clear oldValue), n), Some e)
                    | Inr es \<Rightarrow>
                        (let ((m, n'), err) = set_converted h (y_clear oldValue) es n
                         in ((y_put base property m, n'), err)))
                 else
                   (case y_delete base j 1 of
                      (b, Some e) \<Rightarrow> ((b, n), Some e)
                    | (b, None) \<Rightarrow>
                        (case toYDataType h v [] n of
                           Inl e \<Rightarrow> ((b, n), Some e)
                         | Inr (y, added, n') \<Rightarrow>
                             (let (b', err) = y_insert b j [y] in ((b', n'), err)))))
             | Remove \<Rightarrow> (let (b, err) = y_delete base j 1 in ((b, n), err)))
          else ((base, n), Some NotImplemented))"

definition defaultApplyPatch :: "heap \<Rightarrow> ystate \<Rightarrow> patch \<Rightarrow> ystate \<times> error option" where
  "defaultApplyPatch h st pt =
     (let path = p_path pt; opr = p_op pt; v = p_value pt; target = y_root st in
      if path = [] then
        (if opr \<noteq> Replace then (st, Some NotImplemented)
         else if is_YMap target \<and> isJSONObject h v then
           (let ((m, n'), err) = set_converted h (y_clear target) (for_in h v) (y_next st)
            in (\<lparr>y_root = m, y_next = n'\<rparr>, err))
         else if is_YArray target \<and> isJSONArray h v then
           (if \<not> y_doc target then (st, Some NotModelled)
            else
              (let emptied = fst (y_delete target 0 (y_length target)) in
               case convEach h (array_items h v) (y_next st) of
                 Inl e \<Rightarrow> (\<lparr>y_root = emptied, y_next = y_next st\<rparr>, Some e)
               | Inr (ys, n') \<Rightarrow>
                   (let (arr, err) = y_push emptied ys
                    in (\<lparr>y_root = arr, y_next = n'\<rparr>, err))))
         else (st, Some NotImplemented))
      else
        (case navigate target (butlast path) of
           Inl e \<Rightarrow> (st, Some e)
         | Inr base \<Rightarrow>
             (let ((b, n'), err) = apply_at_base h base (y_next st) opr (last path) v
              in (\<lparr>y_root = write_back target (butlast path) b, y_next = n'\<rparr>, err))))"

section \<open>Event translator (bind.ts)\<close>

text \<open>
  Modelled from the spec: the change events of section 3, which the CRDT engine emits. An
  event carries the path from the bound root to its container and either the key changes
  of a keyed container, with the live container to read the new values from, or the delta
  run of a sequence container. A delta is an object with the optional fields
  \<^verbatim>\<open>retain\<close>, \<^verbatim>\<open>delete\<close> and \<^verbatim>\<open>insert\<close>; Yjs types an insert as an array or a string.
\<close>

datatype insert_payload = InsArray "ynode list" | InsString string

record change =
  c_retain :: "nat option"
  c_delete :: "nat option"
  c_insert :: "insert_payload option"

datatype key_action = KAdd | KUpdate | KDelete

datatype yevent =
    YMapEvent "key list" ynode "(string \<times> key_action) list"
  | YArrayEvent "key list" "change list"
  | YOtherEvent "key list"

fun event_path :: "yevent \<Rightarrow> key list" where
  "event_path (YMapEvent path source changes) = path"
| "event_path (YArrayEvent path delta) = path"
| "event_path (YOtherEvent path) = path"

text \<open>\<^verbatim>\<open>arr.splice(start, deleteCount, ...items)\<close> for a start that is not negative: a
  start past the end is the end, and no more is deleted than is there.\<close>

definition js_splice :: "nat \<Rightarrow> nat \<Rightarrow> 'a list \<Rightarrow> 'a list \<Rightarrow> 'a list" where
  "js_splice start deleteCount items arr = take start arr @ items @ drop (start + deleteCount) arr"

text \<open>The body of \<^verbatim>\<open>event.changes.delta.forEach\<close>: the three tests in the order of the
  source, each on the truthiness of its field (\<^verbatim>\<open>0\<close> and the empty string are falsy, the
  empty array is truthy). The state is the cursor \<open>retain\<close> and the array.\<close>

definition apply_change :: "nat \<times> json list \<Rightarrow> change \<Rightarrow> nat \<times> json list" where
  "apply_change st c =
     (let (retain, arr) = st;
          retain1 = (case c_retain c of Some r \<Rightarrow> if r \<noteq> 0 then retain + r else retain
                     | None \<Rightarrow> retain);
          arr1 = (case c_delete c of Some d \<Rightarrow> if d \<noteq> 0 then js_splice retain1 d [] arr else arr
                  | None \<Rightarrow> arr)
      in case c_insert c of
           None \<Rightarrow> (retain1, arr1)
         | Some (InsArray ys) \<Rightarrow>
             (retain1 + length ys, js_splice retain1 0 (map toPlainValue ys) arr1)
         | Some (InsString s) \<Rightarrow>
             if s = [] then (retain1, arr1)
             else (retain1 + length s, js_splice retain1 0 [JPrim (PStr s)] arr1))"

text \<open>One key change of a keyed container on the draft \<open>base\<close>, which is an object or
  \<^verbatim>\<open>null\<close> (\<open>isJSONObject\<close> holds of both); writing to \<^verbatim>\<open>null\<close> throws.\<close>

fun apply_key_change :: "ynode \<Rightarrow> json \<Rightarrow> string \<times> key_action \<Rightarrow> error + json" where
  "apply_key_change source (JObj es) (k, KDelete) = Inr (JObj (AList.delete k es))"
| "apply_key_change source (JObj es) (k, action) =
     Inr (JObj (AList.update k (toPlainValue (y_get source (KStr k))) es))"
| "apply_key_change source base (k, action) = Inl TypeError"

fun apply_key_changes :: "ynode \<Rightarrow> json \<Rightarrow> (string \<times> key_action) list \<Rightarrow> error + json" where
  "apply_key_changes source base [] = Inr base"
| "apply_key_changes source base (c # cs) =
     (case apply_key_change source base c of
        Inl e \<Rightarrow> Inl e
      | Inr base' \<Rightarrow> apply_key_changes source base' cs)"

fun applyYEvent :: "json \<Rightarrow> yevent \<Rightarrow> error + json" where
  "applyYEvent (JObj es) (YMapEvent path source changes) = apply_key_changes source (JObj es) changes"
| "applyYEvent (JPrim PNull) (YMapEvent path source changes) =
     apply_key_changes source (JPrim PNull) changes"
| "applyYEvent (JArr arr) (YArrayEvent path delta) = Inr (JArr (snd (foldl apply_change (0, arr) delta)))"
| "applyYEvent base event = Inr base"

text \<open>
  \<^verbatim>\<open>applyYEvents\<close>: inside one draft of the snapshot, every event is resolved along its
  path (\<^verbatim>\<open>obj[step]\<close>, a \<open>TypeError\<close> on \<^verbatim>\<open>null\<close> and \<^verbatim>\<open>undefined\<close>) and applied to
  the draft node found. The paths of Yjs name a key of a keyed container by a string and an
  element of a sequence by a number; any other property read is taken as \<^verbatim>\<open>undefined\<close>.
  An error leaves the snapshot as it was, since the draft is dropped.
\<close>

fun json_get :: "json \<Rightarrow> key \<Rightarrow> error + json" where
  "json_get (JObj es) (KStr k) = Inr (case map_of es k of Some t \<Rightarrow> t | None \<Rightarrow> JUndefined)"
| "json_get (JArr ts) (KNum j) = Inr (if j < length ts then ts ! j else JUndefined)"
| "json_get (JPrim PNull) step = Inl TypeError"
| "json_get JUndefined step = Inl TypeError"
| "json_get t step = Inr JUndefined"

fun json_put :: "json \<Rightarrow> key \<Rightarrow> json \<Rightarrow> json" where
  "json_put (JObj es) (KStr k) c =
     (if k \<in> fst ` set es then JObj (AList.update k c es) else JObj es)"
| "json_put (JArr ts) (KNum j) c = JArr (ts[j := c])"
| "json_put t step c = t"

fun apply_event_at :: "json \<Rightarrow> key list \<Rightarrow> yevent \<Rightarrow> error + json" where
  "apply_event_at obj [] event = applyYEvent obj event"
| "apply_event_at obj (step # steps) event =
     (case json_get obj step of
        Inl e \<Rightarrow> Inl e
      | Inr child \<Rightarrow>
          (case apply_event_at child steps event of
             Inl e \<Rightarrow> Inl e
           | Inr child' \<Rightarrow> Inr (json_put obj step child')))"

fun applyYEvents :: "json \<Rightarrow> yevent list \<Rightarrow> error + json" where
  "applyYEvents snapshot [] = Inr snapshot"
| "applyYEvents snapshot (event # events) =
     (case apply_event_at snapshot (event_path event) event of
        Inl e \<Rightarrow> Inl e
      | Inr target \<Rightarrow> applyYEvents target events)"

subsection \<open>The replay of a delta run, in the words of the spec\<close>

text \<open>
  Section 4.3: a single running cursor; \<open>Retain\<close> advances the cursor by its count
  without mutation; \<open>Delete\<close> removes that many elements starting at the cursor without
  advancing it; \<open>Insert\<close> splices in the plain-value projections of the inserted elements
  at the cursor and advances the cursor by the inserted count. The plain-value projection
  is the one of section 4.1: the full plain-value snapshot of a container, which is its
  \<^verbatim>\<open>toJSON\<close>, and a value that is no container unchanged.
\<close>

datatype delta = Retain nat | Delete nat | Insert "ynode list"

fun replay_spec :: "nat \<Rightarrow> json list \<Rightarrow> delta list \<Rightarrow> json list" where
  "replay_spec cursor arr [] = arr"
| "replay_spec cursor arr (Retain n # ds) = replay_spec (cursor + n) arr ds"
| "replay_spec cursor arr (Delete n # ds) =
     replay_spec cursor (take cursor arr @ drop (cursor + n) arr) ds"
| "replay_spec cursor arr (Insert ys # ds) =
     replay_spec (cursor + length ys) (take cursor arr @ map toJSON ys @ drop cursor arr) ds"

text \<open>The delta object Yjs reports for each kind: one field set.\<close>

fun change_of :: "delta \<Rightarrow> change" where
  "change_of (Retain n) = \<lparr>c_retain = Some n, c_delete = None, c_insert = None\<rparr>"
| "change_of (Delete n) = \<lparr>c_retain = None, c_delete = Some n, c_insert = None\<rparr>"
| "change_of (Insert ys) = \<lparr>c_retain = None, c_delete = None, c_insert = Some (InsArray ys)\<rparr>"

section \<open>Synchronization hub (bind.ts)\<close>

subsection \<open>The subscriber set\<close>

text \<open>
  \<^verbatim>\<open>subscription\<close> is a JavaScript \<^verbatim>\<open>Set\<close> of listener functions, compared by identity.
  The model is the one of the language standard: the list of entries in insertion order,
  where \<^verbatim>\<open>delete\<close> leaves an empty slot in place of the entry and \<^verbatim>\<open>add\<close> appends an
  entry that is not there; \<^verbatim>\<open>forEach\<close> walks the list by index and skips the empty slots,
  so it sees the deletions made by the callbacks it has run.
\<close>

type_synonym lid = nat

type_synonym subscription = "lid option list"

definition set_add :: "subscription \<Rightarrow> lid \<Rightarrow> subscription" where
  "set_add s f = (if Some f \<in> set s then s else s @ [Some f])"

definition set_delete :: "subscription \<Rightarrow> lid \<Rightarrow> subscription" where
  "set_delete s f = map (\<lambda>e. if e = Some f then None else e) s"

definition live :: "subscription \<Rightarrow> lid list" where
  "live s = map the (filter (\<lambda>e. e \<noteq> None) s)"

subsection \<open>Options\<close>

text \<open>The value given as \<^verbatim>\<open>patchesOptions\<close>, by its JavaScript type. The declared type
  admits \<^verbatim>\<open>true\<close> and the configuration object only; a caller that goes around the
  type checker can pass anything.\<close>

record patches_config =
  pathAsArray :: "bool option"
  arrayLengthAssignment :: "bool option"

datatype js_conf =
    CUndefined
  | CNull
  | CBool bool
  | CObject patches_config
  | CNumber int
  | CString string
  | CFunction

definition typeof_object :: "js_conf \<Rightarrow> bool" where
  "typeof_object c = (case c of CNull \<Rightarrow> True | CObject cfg \<Rightarrow> True | _ \<Rightarrow> False)"

type_synonym apply_patch = "ystate \<Rightarrow> patch \<Rightarrow> ystate \<times> error option"

record options =
  opt_applyPatch :: "(apply_patch \<Rightarrow> apply_patch) option"
  opt_patchesOptions :: js_conf

text \<open>\<^verbatim>\<open>options ? (options.patchesOptions ?? true) : true\<close>, and the test that throws.\<close>

definition patchesOptionsInOption :: "options option \<Rightarrow> js_conf" where
  "patchesOptionsInOption opts =
     (case opts of
        None \<Rightarrow> CBool True
      | Some opt \<Rightarrow>
          (case opt_patchesOptions opt of
             CUndefined \<Rightarrow> CBool True
           | CNull \<Rightarrow> CBool True
           | c \<Rightarrow> c))"

definition config_rejected :: "js_conf \<Rightarrow> bool" where
  "config_rejected c = (c \<noteq> CBool True \<and> c \<noteq> CNull \<and> \<not> typeof_object c)"

subsection \<open>Binders\<close>

text \<open>
  The state a call of \<^verbatim>\<open>bind\<close> closes over: the snapshot, the subscriber set, whether
  the deep observer is registered, and the options. \<open>b_calls\<close> records every call of a
  listener with the snapshot it got. A listener is known by its identity; what it does when
  called is given by \<open>beh\<close>: the listeners whose unsubscribe function it calls, on the
  binder that notifies it. Listeners that subscribe or update from within a notification
  are outside this model.
\<close>

record binder_state =
  b_snapshot :: json
  b_subscription :: subscription
  b_observing :: bool
  b_options :: "options option"
  b_calls :: "(lid \<times> json) list"

type_synonym behaviour = "lid \<Rightarrow> lid list"


definition get :: "binder_state \<Rightarrow> json" where
  "get b = b_snapshot b"

definition unsubscribe :: "lid \<Rightarrow> binder_state \<Rightarrow> binder_state" where
  "unsubscribe f b = b\<lparr>b_subscription := set_delete (b_subscription b) f\<rparr>"

text \<open>The call \<^verbatim>\<open>fn(get())\<close> of one listener.\<close>

definition call_listener :: "behaviour \<Rightarrow> lid \<Rightarrow> binder_state \<Rightarrow> binder_state" where
  "call_listener beh f b =
     fold unsubscribe (beh f) (b\<lparr>b_calls := b_calls b @ [(f, get b)]\<rparr>)"

definition subscribe :: "behaviour \<Rightarrow> lid \<Rightarrow> bool \<Rightarrow> binder_state \<Rightarrow> binder_state" where
  "subscribe beh f immediate b =
     (let b1 = b\<lparr>b_subscription := set_add (b_subscription b) f\<rparr>
      in if immediate then call_listener beh f b1 else b1)"

lemma length_subscription_unsubscribe:
  "length (b_subscription (unsubscribe f b)) = length (b_subscription b)"
  by (simp add: unsubscribe_def set_delete_def)

lemma length_subscription_call_listener:
  "length (b_subscription (call_listener beh f b)) = length (b_subscription b)"
proof -
  have "length (b_subscription (fold unsubscribe gs c)) = length (b_subscription c)" for gs c
    by (induction gs arbitrary: c) (simp_all add: length_subscription_unsubscribe)
  then show ?thesis by (simp add: call_listener_def)
qed

text \<open>\<^verbatim>\<open>subscription.forEach((fn) => fn(get()))\<close>, from index \<open>i\<close> on.\<close>

function forEach_from :: "behaviour \<Rightarrow> nat \<Rightarrow> binder_state \<Rightarrow> binder_state" where
  "forEach_from beh i b =
     (if i < length (b_subscription b) then
        (case b_subscription b ! i of
           None \<Rightarrow> forEach_from beh (Suc i) b
         | Some f \<Rightarrow> forEach_from beh (Suc i) (call_listener beh f b))
      else b)"
  by pat_completeness auto
termination
  by (relation "measure (\<lambda>(beh, i, b). length (b_subscription b) - i)")
    (auto simp: length_subscription_call_listener)

declare forEach_from.simps [simp del]

definition notify :: "behaviour \<Rightarrow> binder_state \<Rightarrow> binder_state" where
  "notify beh b = forEach_from beh 0 b"

text \<open>
  \<^verbatim>\<open>const MUTATIVE_YJS_ORIGIN = Symbol('mutative-yjs')\<close> stands at the top level of the
  module: it is evaluated once, and every binder that \<^verbatim>\<open>bind\<close> makes compares with and
  passes on this one symbol.
\<close>

datatype origin = MutativeYjsSymbol | NullOrigin | ForeignOrigin nat

definition MUTATIVE_YJS_ORIGIN :: origin where
  "MUTATIVE_YJS_ORIGIN = MutativeYjsSymbol"

definition observer :: "behaviour \<Rightarrow> yevent list \<Rightarrow> origin \<Rightarrow> binder_state \<Rightarrow> binder_state \<times> error option" where
  "observer beh events transaction_origin b =
     (if transaction_origin = MUTATIVE_YJS_ORIGIN then (b, None)
      else (case applyYEvents (get b) events of
              Inl e \<Rightarrow> (b, Some e)
            | Inr s \<Rightarrow> (notify beh (b\<lparr>b_snapshot := s\<rparr>), None)))"

definition bind :: "ynode \<Rightarrow> options option \<Rightarrow> binder_state" where
  "bind source opts =
     \<lparr>b_snapshot = toJSON source, b_subscription = [], b_observing = True,
      b_options = opts, b_calls = []\<rparr>"

definition unbind :: "binder_state \<Rightarrow> binder_state" where
  "unbind b = b\<lparr>b_observing := False\<rparr>"

text \<open>\<^verbatim>\<open>applyPatch\<close> as \<^verbatim>\<open>bind\<close> chooses it: the hook of the options around the default,
  or the default.\<close>

definition applyPatch :: "heap \<Rightarrow> options option \<Rightarrow> apply_patch" where
  "applyPatch h opts =
     (case opts of
        None \<Rightarrow> defaultApplyPatch h
      | Some opt \<Rightarrow>
          (case opt_applyPatch opt of
             None \<Rightarrow> defaultApplyPatch h
           | Some applyPatchInOption \<Rightarrow> applyPatchInOption (defaultApplyPatch h)))"

text \<open>
  Modelled from the spec: the draft engine (Mutative's \<^verbatim>\<open>create\<close>), by its contract
  ``produce next state + patch list from a mutator function''. A mutator is given by what
  the engine produces for it from a snapshot under the patches options.
\<close>

type_synonym mutator = "js_conf \<Rightarrow> json \<Rightarrow> json \<times> patch list"

text \<open>The loop of \<^verbatim>\<open>applyUpdate\<close>; a patch that throws ends it.\<close>

fun apply_patches :: "apply_patch \<Rightarrow> ystate \<Rightarrow> patch list \<Rightarrow> ystate \<times> error option" where
  "apply_patches ap source [] = (source, None)"
| "apply_patches ap source (pt # patches) =
     (case ap source pt of
        (source', Some e) \<Rightarrow> (source', Some e)
      | (source', None) \<Rightarrow> apply_patches ap source' patches)"

definition applyUpdate ::
    "ystate \<Rightarrow> json \<Rightarrow> mutator \<Rightarrow> apply_patch \<Rightarrow> js_conf \<Rightarrow> ystate \<times> (error + json)" where
  "applyUpdate source snapshot fn ap patchesOptions =
     (let (nextState, patches) = fn patchesOptions snapshot in
      case apply_patches ap source patches of
        (source', Some e) \<Rightarrow> (source', Inl e)
      | (source', None) \<Rightarrow> (source', Inr nextState))"

subsection \<open>Several binders on one source\<close>

text \<open>
  Modelled from the spec: the document of the CRDT engine with its transactions and deep
  observers (sections 3 and 5). The world is the source container and the binders bound
  to it, in the order they were bound; the source belongs to a document or it is a new
  container. The engine is the
  function \<open>ev\<close> from the tree before and after a transaction to the events it reports
  (none when nothing changed); at the end of a transaction every registered observer is
  called with the events and the origin of the transaction.
\<close>

record world =
  w_source :: ystate
  w_binders :: "binder_state list"

type_synonym engine = "ynode \<Rightarrow> ynode \<Rightarrow> yevent list"

fun dispatch ::
    "behaviour \<Rightarrow> yevent list \<Rightarrow> origin \<Rightarrow> binder_state list \<Rightarrow> binder_state list \<times> error option" where
  "dispatch beh events org [] = ([], None)"
| "dispatch beh events org (b # bs) =
     (let (b', e1) = (if b_observing b then observer beh events org b else (b, None));
          (bs', e2) = dispatch beh events org bs
      in (b' # bs', case e1 of Some e \<Rightarrow> Some e | None \<Rightarrow> e2))"

definition transact ::
    "engine \<Rightarrow> behaviour \<Rightarrow> origin \<Rightarrow> (world \<Rightarrow> world \<times> error option) \<Rightarrow> world
       \<Rightarrow> world \<times> error option" where
  "transact ev beh org body w =
     (let (w1, err) = body w;
          events = ev (y_root (w_source w)) (y_root (w_source w1));
          (bs, oerr) = (if events = [] then (w_binders w1, None)
                        else dispatch beh events org (w_binders w1))
      in (w1\<lparr>w_binders := bs\<rparr>, case err of Some e \<Rightarrow> Some e | None \<Rightarrow> oerr))"

text \<open>\<^verbatim>\<open>doApplyUpdate\<close> and \<^verbatim>\<open>update\<close> of binder \<open>i\<close>. The snapshot is assigned only
  when no patch threw.\<close>

definition doApplyUpdate ::
    "heap \<Rightarrow> nat \<Rightarrow> mutator \<Rightarrow> js_conf \<Rightarrow> world \<Rightarrow> world \<times> error option" where
  "doApplyUpdate h i fn patchesOptions w =
     (let b = w_binders w ! i in
      case applyUpdate (w_source w) (get b) fn (applyPatch h (b_options b)) patchesOptions of
        (source', Inl e) \<Rightarrow> (w\<lparr>w_source := source'\<rparr>, Some e)
      | (source', Inr nextState) \<Rightarrow>
          (w\<lparr>w_source := source', w_binders := (w_binders w)[i := b\<lparr>b_snapshot := nextState\<rparr>]\<rparr>,
           None))"

definition notify_binder :: "behaviour \<Rightarrow> nat \<Rightarrow> world \<Rightarrow> world" where
  "notify_binder beh i w = w\<lparr>w_binders := (w_binders w)[i := notify beh (w_binders w ! i)]\<rparr>"

definition update ::
    "heap \<Rightarrow> engine \<Rightarrow> behaviour \<Rightarrow> nat \<Rightarrow> mutator \<Rightarrow> world \<Rightarrow> world \<times> error option" where
  "update h ev beh i fn w =
     (let patchesOptions = patchesOptionsInOption (b_options (w_binders w ! i)) in
      if config_rejected patchesOptions then (w, Some InvalidConfiguration)
      else if y_doc (y_root (w_source w)) then
        (case transact ev beh MUTATIVE_YJS_ORIGIN (doApplyUpdate h i fn patchesOptions) w of
           (w1, Some e) \<Rightarrow> (w1, Some e)
         | (w1, None) \<Rightarrow> (notify_binder beh i w1, None))
      else
        (case doApplyUpdate h i fn patchesOptions w of
           (w1, Some e) \<Rightarrow> (w1, Some e)
         | (w1, None) \<Rightarrow> (notify_binder beh i w1, None)))"

text \<open>A mutation of the source made outside the binders: when the source belongs to a
  document, in a transaction of its own with the origin given; no transaction and no event
  otherwise.\<close>

definition external_mutation ::
    "engine \<Rightarrow> behaviour \<Rightarrow> origin \<Rightarrow> (ystate \<Rightarrow> ystate) \<Rightarrow> world \<Rightarrow> world \<times> error option" where
  "external_mutation ev beh org f w =
     (if y_doc (y_root (w_source w)) then
        transact ev beh org (\<lambda>w0. (w0\<lparr>w_source := f (w_source w0)\<rparr>, None)) w
      else (w\<lparr>w_source := f (w_source w)\<rparr>, None))"

section \<open>Integration of a container built by the converter\<close>

lemma toPlainValue_toJSON: "toPlainValue y = toJSON y"
  by (cases y) (simp_all add: toPlainValue_def)

lemma update_fresh_key: "k \<notin> fst ` set es \<Longrightarrow> AList.update k y es = es @ [(k, y)]"
  by (induction es) auto

lemma integrate_fresh_general:
  shows "fresh y \<longrightarrow> integrate y = (attached y, None)"
    and "list_all (\<lambda>(k, y). fresh y) es \<longrightarrow> distinct (map fst es)
        \<longrightarrow> fst ` set es \<inter> fst ` set acc = {}
        \<longrightarrow> integrate_entries acc es = (acc @ map (\<lambda>(k, y). (k, attached y)) es, None)"
    and "list_all fresh zs
        \<longrightarrow> insert_generics buf ins zs = (ins @ buf @ map attached zs, None)"
proof (induction y and acc es and buf ins zs rule: integrate_integrate_entries_insert_generics.induct)
  case (8 acc k y es)
  show ?case
  proof (intro impI)
    assume f: "list_all (\<lambda>(k, y). fresh y) ((k, y) # es)"
      and d: "distinct (map fst ((k, y) # es))"
      and x: "fst ` set ((k, y) # es) \<inter> fst ` set acc = {}"
    from f have fy: "fresh y" and fes: "list_all (\<lambda>(k, y). fresh y) es" by auto
    from 8(1) fy have iy: "integrate y = (attached y, None)" by simp
    from x have "k \<notin> fst ` set acc" by auto
    then have upd: "AList.update k (attached y) acc = acc @ [(k, attached y)]"
      by (rule update_fresh_key)
    from d x have "fst ` set es \<inter> fst ` set (acc @ [(k, attached y)]) = {}"
      by (auto simp: image_iff)
    with 8(2)[OF iy[symmetric] refl] fes d upd
    have "integrate_entries (acc @ [(k, attached y)]) es
        = ((acc @ [(k, attached y)]) @ map (\<lambda>(k, y). (k, attached y)) es, None)"
      by simp
    then show "integrate_entries acc ((k, y) # es)
        = (acc @ map (\<lambda>(k, y). (k, attached y)) ((k, y) # es), None)"
      by (simp add: iy upd)
  qed
next
  case (10 buf acc z zs)
  show ?case
  proof (intro impI)
    assume f: "list_all fresh (z # zs)"
    then have fz: "fresh z" and fzs: "list_all fresh zs" by auto
    show "insert_generics buf acc (z # zs) = (acc @ buf @ map attached (z # zs), None)"
    proof (cases z)
      case (YPrim p)
      with 10(1)[OF YPrim] fzs show ?thesis by simp
    next
      case (YNewArray i ys)
      from 10(6)[OF YNewArray] fz have iz: "integrate z = (attached z, None)" by simp
      from 10(7)[OF YNewArray iz[symmetric] refl] fzs iz show ?thesis
        by (simp add: YNewArray)
    next
      case (YNewMap i es)
      from 10(8)[OF YNewMap] fz have iz: "integrate z = (attached z, None)" by simp
      from 10(9)[OF YNewMap iz[symmetric] refl] fzs iz show ?thesis
        by (simp add: YNewMap)
    qed (use fz in simp_all)
  qed
qed simp_all

lemma integrate_fresh: "fresh y \<Longrightarrow> integrate y = (attached y, None)"
  using integrate_fresh_general(1) by simp

lemma insert_generics_fresh:
  "list_all fresh zs \<Longrightarrow> insert_generics [] [] zs = (map attached zs, None)"
  using integrate_fresh_general(3)[of zs "[]" "[]"] by simp

lemma y_set_fresh:
  "fresh y \<Longrightarrow> y_set (YMap i es) k y = (YMap i (AList.update k (attached y) es), None)"
  by (simp add: integrate_fresh)

lemma y_push_fresh:
  "list_all fresh zs \<Longrightarrow> y_push (YArray i ys) zs = (YArray i (ys @ map attached zs), None)"
  by (simp add: insert_generics_fresh del: insert_generics.simps)

lemma y_insert_fresh:
  "fresh y \<Longrightarrow> j \<le> length ys
    \<Longrightarrow> y_insert (YArray i ys) j [y] = (YArray i (take j ys @ attached y # drop j ys), None)"
  using insert_generics_fresh[of "[y]"] by (simp del: insert_generics.simps)

section \<open>Round trip of the value converter\<close>

lemma fold_update_fresh:
  "distinct (map fst r) \<Longrightarrow> fst ` set r \<inter> fst ` set es = {}
    \<Longrightarrow> fold (\<lambda>(k, y). AList.update k y) r es = es @ r"
proof (induction r arbitrary: es)
  case Nil
  then show ?case by simp
next
  case (Cons kv r)
  obtain k y where kv: "kv = (k, y)" by (cases kv)
  from Cons.prems have knot: "k \<notin> fst ` set es" and d: "distinct (map fst r)"
    and kr: "k \<notin> fst ` set r" and disj: "fst ` set r \<inter> fst ` set es = {}"
    by (auto simp: kv)
  have "fst ` set r \<inter> fst ` set (es @ [(k, y)]) = {}"
    using disj kr by auto
  from Cons.IH[OF d this] show ?case
    by (simp add: kv update_fresh_key[OF knot])
qed

lemma applyJsonObject_convItems:
  "applyJsonObject h (YNewMap i es0) es seen n =
     (case convItems h (map snd es) seen n of
        Inl e \<Rightarrow> Inl e
      | Inr (ys, added, n') \<Rightarrow>
          Inr (YNewMap i (fold (\<lambda>(k, y). AList.update k y) (zip (map fst es) ys) es0), added, n'))"
proof (induction es arbitrary: es0 seen n)
  case Nil
  then show ?case by simp
next
  case (Cons kv es)
  obtain k v where kv: "kv = (k, v)" by (cases kv)
  show ?case
    by (simp add: kv Cons.IH split: sum.splits prod.splits)
qed

lemma unfolds_list_length:
  "(unfolds h v as t \<longrightarrow> True) \<and> (unfolds_list h vs bs ts \<longrightarrow> length ts = length vs)"
  by (induction rule: unfolds_unfolds_list.induct) simp_all

text \<open>The conversion of a value whose unfolding meets every array and object once, none
  of them seen before: it succeeds, adds exactly the identities met, and returns a fresh
  value which, made part of a document, projects to the unfolding.\<close>

lemma roundtrip_general:
  "(unfolds h v as t \<longrightarrow> (\<forall>seen n. distinct as \<longrightarrow> set as \<inter> set seen = {} \<longrightarrow>
      (\<exists>y n'. toYDataType h v seen n = Inr (y, rev as, n') \<and> fresh y
          \<and> toJSON (attached y) = t)))
   \<and> (unfolds_list h vs bs ts \<longrightarrow> (\<forall>seen n. distinct bs \<longrightarrow> set bs \<inter> set seen = {} \<longrightarrow>
      (\<exists>ys n'. convItems h vs seen n = Inr (ys, rev bs, n') \<and> list_all fresh ys
          \<and> map (\<lambda>y. toJSON (attached y)) ys = ts)))"
proof (induction rule: unfolds_unfolds_list.induct)
  case (u_prim h p)
  then show ?case by simp
next
  case (u_array h a vs as ts)
  show ?case
  proof (intro allI impI)
    fix seen n
    assume d: "distinct (a # as)" and s: "set (a # as) \<inter> set seen = {}"
    then have "distinct as" "set as \<inter> set (a # seen) = {}" by auto
    with u_array.IH obtain ys n' where
      c: "convItems h vs (a # seen) (Suc n) = Inr (ys, rev as, n')"
      and f: "list_all fresh ys" and j: "map (\<lambda>y. toJSON (attached y)) ys = ts"
      by blast
    from s have "a \<notin> set seen" by auto
    then show "\<exists>y n'. toYDataType h (Ref a) seen n = Inr (y, rev (a # as), n') \<and> fresh y
        \<and> toJSON (attached y) = JArr ts"
      using u_array.hyps c f j by (simp add: comp_def)
  qed
next
  case (u_object h a es as ts)
  show ?case
  proof (intro allI impI)
    fix seen n
    assume d: "distinct (a # as)" and s: "set (a # as) \<inter> set seen = {}"
    then have "distinct as" "set as \<inter> set (a # seen) = {}" by auto
    with u_object.IH obtain ys n' where
      c: "convItems h (map snd es) (a # seen) (Suc n) = Inr (ys, rev as, n')"
      and f: "list_all fresh ys" and j: "map (\<lambda>y. toJSON (attached y)) ys = ts"
      by blast
    from j have len: "length ys = length (map fst es)"
      using unfolds_list_length[of h undefined undefined undefined "map snd es" as ts]
        u_object.hyps(3)
      by (metis length_map)
    have dz: "distinct (map fst (zip (map fst es) ys))"
      using u_object.hyps(2) len by simp
    have fu: "fold (\<lambda>(k, y). AList.update k y) (zip (map fst es) ys) [] = zip (map fst es) ys"
      using fold_update_fresh[OF dz, of "[]"] by simp
    have fz: "list_all (\<lambda>(k, y). fresh y) (zip (map fst es) ys)"
      using f len by (auto simp: list_all_iff dest: set_zip_rightD)
    have jz: "map (\<lambda>(k, y). (k, toJSON y)) (map (\<lambda>(k, y). (k, attached y)) (zip (map fst es) ys))
        = zip (map fst es) ts"
      using j len by (auto simp: zip_map2 comp_def case_prod_beta intro!: nth_equalityI)
    from s have "a \<notin> set seen" by auto
    then show "\<exists>y n'. toYDataType h (Ref a) seen n = Inr (y, rev (a # as), n') \<and> fresh y
        \<and> toJSON (attached y) = JObj (zip (map fst es) ts)"
      using u_object.hyps(1) c fu fz dz jz
      by (simp add: applyJsonObject_convItems)
  qed
next
  case (u_nil h)
  then show ?case by simp
next
  case (u_cons h v as t vs bs ts)
  show ?case
  proof (intro allI impI)
    fix seen n
    assume d: "distinct (as @ bs)" and s: "set (as @ bs) \<inter> set seen = {}"
    then have "distinct as" "set as \<inter> set seen = {}" by auto
    with u_cons.IH(1) obtain y n' where
      c1: "toYDataType h v seen n = Inr (y, rev as, n')" and f1: "fresh y"
      and j1: "toJSON (attached y) = t" by blast
    from d s have "distinct bs" "set bs \<inter> set (rev as @ seen) = {}" by auto
    with u_cons.IH(2) obtain ys n'' where
      c2: "convItems h vs (rev as @ seen) n' = Inr (ys, rev bs, n'')"
      and f2: "list_all fresh ys"
      and j2: "map (\<lambda>y. toJSON (attached y)) ys = ts" by blast
    show "\<exists>ys n'. convItems h (v # vs) seen n = Inr (ys, rev (as @ bs), n')
        \<and> list_all fresh ys \<and> map (\<lambda>y. toJSON (attached y)) ys = t # ts"
      using c1 c2 f1 f2 j1 j2 by simp
  qed
qed

lemma roundtrip_value:
  assumes "unfolds h v as t" and "distinct as" and "set as \<inter> set seen = {}"
  shows "\<exists>y n'. toYDataType h v seen n = Inr (y, rev as, n') \<and> fresh y
    \<and> toJSON (attached y) = t"
  using roundtrip_general[of h v as t "[]" "[]" "[]"] assms by blast

text \<open>
  What the converter returns has to be made part of a document before it shows anything.
  Set under a key of a keyed container of a document, or inserted into a sequence container
  of one, a fresh value is integrated whole, and \<^verbatim>\<open>get\<close> returns it.
\<close>

lemma y_get_y_set_fresh:
  assumes "fresh y"
  shows "\<exists>m. y_set (YMap i es) k y = (m, None) \<and> y_get m (KStr k) = attached y"
  using y_set_fresh[OF assms, of i es k] by (simp add: update_conv' del: y_set.simps)

lemma y_get_y_insert_fresh:
  assumes "fresh y" and "j \<le> length ys"
  shows "\<exists>arr. y_insert (YArray i ys) j [y] = (arr, None) \<and> y_get arr (KNum j) = attached y"
  using y_insert_fresh[OF assms, of i] assms(2)
  by (simp add: nth_append min_absorb2 del: y_insert.simps)

text \<open>
  A value free of cycles that the converter rejects. The heap holds an empty array
  (identity 0) and an object (identity 1) whose two properties both refer to that array:
  \<^verbatim>\<open>const a = []; const v = {x: a, y: a}\<close>. The value unfolds to the finite tree
  \<^verbatim>\<open>{x: [], y: []}\<close>, so no cycle is reachable from it, and the conversion throws
  CircularReference at the second visit of the array: the set \<open>seen\<close> holds what has been
  visited, not what is being visited.
\<close>

lemma shared_reference_reported_circular:
  "unfolds [(0, JSArray []), (1, JSObject [(''x'', Ref 0), (''y'', Ref 0)])] (Ref 1) [1, 0, 0]
      (JObj [(''x'', JArr []), (''y'', JArr [])])
   \<and> toYDataType [(0, JSArray []), (1, JSObject [(''x'', Ref 0), (''y'', Ref 0)])] (Ref 1) [] 0
      = Inl CircularReference"
proof
  let ?h = "[(0, JSArray []), (1, JSObject [(''x'', Ref 0), (''y'', Ref 0)])]"
  have a: "unfolds ?h (Ref 0) [0] (JArr [])"
    by (rule u_array[where vs = "[]"]) (simp_all add: u_nil)
  have "unfolds_list ?h [Ref 0, Ref 0] ([0] @ [0] @ []) [JArr [], JArr []]"
    by (intro u_cons a u_nil)
  then have "unfolds_list ?h (map snd [(''x'', Ref 0), (''y'', Ref 0)]) [0, 0] [JArr [], JArr []]"
    by simp
  from u_object[where h = ?h and a = 1, OF _ _ this]
  show "unfolds ?h (Ref 1) [1, 0, 0] (JObj [(''x'', JArr []), (''y'', JArr [])])"
    by simp
  show "toYDataType ?h (Ref 1) [] 0 = Inl CircularReference"
    by simp
qed

lemma unfolds_example:
  "unfolds [(0, JSObject [(''a'', Prim (PNum 1)), (''b'', Ref 1)]), (1, JSArray [Prim (PStr ''x'')])]
      (Ref 0) [0, 1] (JObj [(''a'', JPrim (PNum 1)), (''b'', JArr [JPrim (PStr ''x'')])])"
proof -
  let ?h = "[(0, JSObject [(''a'', Prim (PNum 1)), (''b'', Ref 1)]), (1, JSArray [Prim (PStr ''x'')])]"
  have "unfolds_list ?h [Prim (PStr ''x'')] ([] @ []) [JPrim (PStr ''x'')]"
    by (intro u_cons u_prim u_nil)
  then have b: "unfolds ?h (Ref 1) [1] (JArr [JPrim (PStr ''x'')])"
    by (intro u_array[where vs = "[Prim (PStr ''x'')]"]) simp_all
  have "unfolds_list ?h [Prim (PNum 1), Ref 1] ([] @ [1] @ [])
      [JPrim (PNum 1), JArr [JPrim (PStr ''x'')]]"
    by (intro u_cons u_prim b u_nil)
  then have "unfolds_list ?h (map snd [(''a'', Prim (PNum 1)), (''b'', Ref 1)]) [1]
      [JPrim (PNum 1), JArr [JPrim (PStr ''x'')]]"
    by simp
  from u_object[where h = ?h and a = 0, OF _ _ this]
  show ?thesis by simp
qed

text \<open>
  Claim C4, as stated, at \<^verbatim>\<open>{a: 1, b: ['x']}\<close>, a value free of cycles and of shared
  references: \<^verbatim>\<open>toYDataType\<close> returns a new keyed container that holds the converted
  members as its preliminary content, and \<^verbatim>\<open>toPlainValue\<close> of that container, which
  belongs to no document, is the empty object, not the value.
\<close>

theorem C4_new_container_counterexample:
  "unfolds [(0, JSObject [(''a'', Prim (PNum 1)), (''b'', Ref 1)]), (1, JSArray [Prim (PStr ''x'')])]
      (Ref 0) [0, 1] (JObj [(''a'', JPrim (PNum 1)), (''b'', JArr [JPrim (PStr ''x'')])])
   \<and> toYDataType
        [(0, JSObject [(''a'', Prim (PNum 1)), (''b'', Ref 1)]), (1, JSArray [Prim (PStr ''x'')])]
        (Ref 0) [] 0
      = Inr (YNewMap 0 [(''a'', YPrim (PNum 1)), (''b'', YNewArray 1 [YPrim (PStr ''x'')])], [1, 0], 2)
   \<and> toPlainValue (YNewMap 0 [(''a'', YPrim (PNum 1)), (''b'', YNewArray 1 [YPrim (PStr ''x'')])])
      = JObj []
   \<and> JObj [] \<noteq> JObj [(''a'', JPrim (PNum 1)), (''b'', JArr [JPrim (PStr ''x'')])]"
  using unfolds_example by (simp add: toPlainValue_def)

text \<open>
  Claim C4, amended: for every plain value free of cycles in which no array or object is
  met twice (the unfolding meets every identity once), converting it with \<^verbatim>\<open>toYDataType\<close>
  (a fresh \<open>seen\<close> set) succeeds, and once the value returned is part of a document, set
  under a key of a keyed container of the document or inserted into a sequence container
  of it, its plain projection equals the tree the value unfolds to.
\<close>

theorem C4_roundtrip:
  assumes "unfolds h v as t" and "distinct as"
  shows "\<exists>y added n'. toYDataType h v [] n = Inr (y, added, n')
    \<and> (\<forall>i es k. \<exists>m. y_set (YMap i es) k y = (m, None) \<and> toPlainValue (y_get m (KStr k)) = t)
    \<and> (\<forall>i ys j. j \<le> length ys \<longrightarrow>
          (\<exists>arr. y_insert (YArray i ys) j [y] = (arr, None)
             \<and> toPlainValue (y_get arr (KNum j)) = t))"
proof -
  from assms roundtrip_value[of h v as t "[]" n]
  obtain y n' where c: "toYDataType h v [] n = Inr (y, rev as, n')" and f: "fresh y"
    and j: "toJSON (attached y) = t"
    by auto
  have "\<exists>m. y_set (YMap i es) k y = (m, None) \<and> toPlainValue (y_get m (KStr k)) = t" for i es k
    using y_get_y_set_fresh[OF f, of i es k] j
    by (auto simp: toPlainValue_toJSON simp del: y_set.simps)
  moreover have "\<exists>arr. y_insert (YArray i ys) j [y] = (arr, None)
      \<and> toPlainValue (y_get arr (KNum j)) = t" if "j \<le> length ys" for i ys j
    using y_get_y_insert_fresh[OF f that, of i] j
    by (auto simp: toPlainValue_toJSON simp del: y_insert.simps)
  ultimately show ?thesis using c by blast
qed

theorem C4_roundtrip_witness:
  "unfolds [(0, JSObject [(''a'', Prim (PNum 1)), (''b'', Ref 1)]), (1, JSArray [Prim (PStr ''x'')])]
      (Ref 0) [0, 1] (JObj [(''a'', JPrim (PNum 1)), (''b'', JArr [JPrim (PStr ''x'')])])
   \<and> distinct [0::nat, 1]
   \<and> (\<exists>y added n'.
        toYDataType
          [(0, JSObject [(''a'', Prim (PNum 1)), (''b'', Ref 1)]), (1, JSArray [Prim (PStr ''x'')])]
          (Ref 0) [] 0 = Inr (y, added, n')
        \<and> (\<exists>m. y_set (YMap 5 [(''k'', YPrim PNull)]) ''k'' y = (m, None)
              \<and> toPlainValue (y_get m (KStr ''k''))
                  = JObj [(''a'', JPrim (PNum 1)), (''b'', JArr [JPrim (PStr ''x'')])])
        \<and> (1::nat) \<le> length [YPrim PNull]
        \<and> (\<exists>arr. y_insert (YArray 5 [YPrim PNull]) 1 [y] = (arr, None)
              \<and> toPlainValue (y_get arr (KNum 1))
                  = JObj [(''a'', JPrim (PNum 1)), (''b'', JArr [JPrim (PStr ''x'')])]))"
proof -
  have d: "distinct [0::nat, 1]" by simp
  from C4_roundtrip[OF unfolds_example d, of 0] obtain y added n' where
    c: "toYDataType
          [(0, JSObject [(''a'', Prim (PNum 1)), (''b'', Ref 1)]), (1, JSArray [Prim (PStr ''x'')])]
          (Ref 0) [] 0 = Inr (y, added, n')"
    and s: "\<forall>i es k. \<exists>m. y_set (YMap i es) k y = (m, None)
          \<and> toPlainValue (y_get m (KStr k))
              = JObj [(''a'', JPrim (PNum 1)), (''b'', JArr [JPrim (PStr ''x'')])]"
    and a: "\<forall>i ys j. j \<le> length ys \<longrightarrow>
          (\<exists>arr. y_insert (YArray i ys) j [y] = (arr, None)
             \<and> toPlainValue (y_get arr (KNum j))
                 = JObj [(''a'', JPrim (PNum 1)), (''b'', JArr [JPrim (PStr ''x'')])])"
    by blast
  have l: "(1::nat) \<le> length [YPrim PNull]" by simp
  from s have s': "\<exists>m. y_set (YMap 5 [(''k'', YPrim PNull)]) ''k'' y = (m, None)
          \<and> toPlainValue (y_get m (KStr ''k''))
              = JObj [(''a'', JPrim (PNum 1)), (''b'', JArr [JPrim (PStr ''x'')])]"
    by blast
  from a l have a': "\<exists>arr. y_insert (YArray 5 [YPrim PNull]) 1 [y] = (arr, None)
          \<and> toPlainValue (y_get arr (KNum 1))
              = JObj [(''a'', JPrim (PNum 1)), (''b'', JArr [JPrim (PStr ''x'')])]"
    by blast
  from unfolds_example d c s' l a' show ?thesis by blast
qed

section \<open>Patches at the root\<close>

lemma denotes_tree_converts:
  assumes "denotes_tree h v t"
  shows "\<exists>y added n'. toYDataType h v [] n = Inr (y, added, n') \<and> fresh y
    \<and> toJSON (attached y) = t"
proof -
  from assms obtain as where "unfolds h v as t" "distinct as"
    by (auto simp: denotes_tree_def)
  from roundtrip_value[OF this, of "[]" n] show ?thesis by auto
qed

lemma set_converted_trees:
  assumes "list_all2 (denotes_tree h) (map snd es) ts"
  shows "\<exists>ys n'. set_converted h (YMap i es0) es n
             = ((YMap i (fold (\<lambda>(k, y). AList.update k y) (zip (map fst es) ys) es0), n'), None)
           \<and> map toJSON ys = ts"
  using assms
proof (induction es arbitrary: es0 n ts)
  case Nil
  then show ?case by simp
next
  case (Cons kv es)
  obtain k v where kv: "kv = (k, v)" by (cases kv)
  from Cons.prems obtain t ts' where ts: "ts = t # ts'" and t: "denotes_tree h v t"
    and rest: "list_all2 (denotes_tree h) (map snd es) ts'"
    by (auto simp: kv list_all2_Cons1)
  from denotes_tree_converts[OF t, of n] obtain y added n1 where
    c: "toYDataType h v [] n = Inr (y, added, n1)" and f: "fresh y"
    and j: "toJSON (attached y) = t" by blast
  note s = y_set_fresh[OF f, of i es0 k]
  from Cons.IH[OF rest, of "AList.update k (attached y) es0" n1] obtain ys n' where
    r: "set_converted h (YMap i (AList.update k (attached y) es0)) es n1
          = ((YMap i (fold (\<lambda>(k, y). AList.update k y) (zip (map fst es) ys)
                (AList.update k (attached y) es0)), n'), None)"
    and js: "map toJSON ys = ts'" by blast
  have "set_converted h (YMap i es0) (kv # es) n
          = ((YMap i (fold (\<lambda>(k, y). AList.update k y)
                (zip (map fst (kv # es)) (attached y # ys)) es0), n'), None)"
    using c s r by (simp add: kv del: y_set.simps)
  moreover have "map toJSON (attached y # ys) = ts" by (simp add: j js ts)
  ultimately show ?case by blast
qed

lemma convEach_trees:
  assumes "list_all2 (denotes_tree h) vs ts"
  shows "\<exists>ys n'. convEach h vs n = Inr (ys, n') \<and> list_all fresh ys
    \<and> map (\<lambda>y. toJSON (attached y)) ys = ts"
  using assms
proof (induction vs arbitrary: n ts)
  case Nil
  then show ?case by simp
next
  case (Cons v vs)
  from Cons.prems obtain t ts' where ts: "ts = t # ts'" and t: "denotes_tree h v t"
    and rest: "list_all2 (denotes_tree h) vs ts'"
    by (auto simp: list_all2_Cons1)
  from denotes_tree_converts[OF t, of n] obtain y added n1 where
    c: "toYDataType h v [] n = Inr (y, added, n1)" and f: "fresh y"
    and j: "toJSON (attached y) = t" by blast
  from Cons.IH[OF rest, of n1] obtain ys n' where
    r: "convEach h vs n1 = Inr (ys, n')" and fs: "list_all fresh ys"
    and js: "map (\<lambda>y. toJSON (attached y)) ys = ts'" by blast
  have "convEach h (v # vs) n = Inr (y # ys, n')" by (simp add: c r)
  moreover have "map (\<lambda>y. toJSON (attached y)) (y # ys) = ts" by (simp add: j js ts)
  ultimately show ?case using f fs by auto
qed

text \<open>The four cases of a patch with an empty path.\<close>

lemma root_not_replace:
  assumes "p_path pt = []" and "p_op pt \<noteq> Replace"
  shows "defaultApplyPatch h st pt = (st, Some NotImplemented)"
  using assms by (simp add: defaultApplyPatch_def)

lemma root_replace_map:
  assumes "p_path pt = []" and "p_op pt = Replace" and "y_root st = YMap i old"
    and "p_value pt = Ref a" and "map_of h a = Some (JSObject es)"
    and "distinct (map fst es)" and "list_all2 (denotes_tree h) (map snd es) ts"
  shows "\<exists>m n'. defaultApplyPatch h st pt = (\<lparr>y_root = YMap i m, y_next = n'\<rparr>, None)
           \<and> toJSON (YMap i m) = JObj (zip (map fst es) ts)"
proof -
  from set_converted_trees[OF assms(7), of i "[]" "y_next st"] obtain ys n' where
    r: "set_converted h (YMap i []) es (y_next st)
          = ((YMap i (fold (\<lambda>(k, y). AList.update k y) (zip (map fst es) ys) []), n'), None)"
    and js: "map toJSON ys = ts" by blast
  from js assms(7) have len: "length ys = length (map fst es)"
    by (metis length_map list_all2_lengthD)
  have "distinct (map fst (zip (map fst es) ys))"
    using assms(6) len by simp
  from fold_update_fresh[OF this, of "[]"]
  have fu: "fold (\<lambda>(k, y). AList.update k y) (zip (map fst es) ys) [] = zip (map fst es) ys"
    by simp
  have "defaultApplyPatch h st pt = (\<lparr>y_root = YMap i (zip (map fst es) ys), y_next = n'\<rparr>, None)"
    using assms(1-5) r fu
    by (simp add: defaultApplyPatch_def isJSONObject_def isJSONArray_def for_in_def)
  moreover have "toJSON (YMap i (zip (map fst es) ys)) = JObj (zip (map fst es) ts)"
    unfolding js[symmetric] by (simp add: zip_map2)
  ultimately show ?thesis by blast
qed

lemma root_replace_array:
  assumes "p_path pt = []" and "p_op pt = Replace" and "y_root st = YArray i old"
    and "p_value pt = Ref a" and "map_of h a = Some (JSArray vs)"
    and "list_all2 (denotes_tree h) vs ts"
  shows "\<exists>ys n'. defaultApplyPatch h st pt = (\<lparr>y_root = YArray i ys, y_next = n'\<rparr>, None)
           \<and> toJSON (YArray i ys) = JArr ts"
proof -
  from convEach_trees[OF assms(6), of "y_next st"] obtain ys n' where
    r: "convEach h vs (y_next st) = Inr (ys, n')" and f: "list_all fresh ys"
    and js: "map (\<lambda>y. toJSON (attached y)) ys = ts" by blast
  note p = y_push_fresh[OF f, of i "[]"]
  have "defaultApplyPatch h st pt
      = (\<lparr>y_root = YArray i (map attached ys), y_next = n'\<rparr>, None)"
    using assms(1-5) r p
    by (simp add: defaultApplyPatch_def isJSONObject_def isJSONArray_def array_items_def
        del: y_push.simps)
  moreover have "toJSON (YArray i (map attached ys)) = JArr ts"
    using js by (simp add: comp_def)
  ultimately show ?thesis by blast
qed

lemma root_replace_mismatch:
  assumes "p_path pt = []" and "p_op pt = Replace"
    and "\<not> (is_YMap (y_root st) \<and> isJSONObject h (p_value pt))"
    and "\<not> (is_YArray (y_root st) \<and> isJSONArray h (p_value pt))"
  shows "defaultApplyPatch h st pt = (st, Some NotImplemented)"
  using assms by (auto simp: defaultApplyPatch_def Let_def)

lemma denotes_tree_prim: "denotes_tree h (Prim p) (JPrim p)"
  unfolding denotes_tree_def by (rule exI[of _ "[]"]) (simp add: u_prim)

lemma denotes_tree_prims: "unfolds_list h (map Prim ps) [] (map JPrim ps)"
proof (induction ps)
  case Nil
  then show ?case by (simp add: u_nil)
next
  case (Cons p ps)
  from u_cons[OF u_prim[of h p] Cons] show ?case by simp
qed

lemma denotes_tree_prim_array:
  assumes "map_of h a = Some (JSArray (map Prim ps))"
  shows "denotes_tree h (Ref a) (JArr (map JPrim ps))"
  unfolding denotes_tree_def
  by (rule exI[of _ "[a]"]) (simp add: u_array[OF assms denotes_tree_prims])

text \<open>
  Claim C7: for a patch with an empty path, an \<open>Add\<close> or \<open>Remove\<close> raises NotImplemented
  and leaves the tree as it was. A \<open>Replace\<close> of a keyed root by an object, or of a sequence
  root by an array, whose members each denote a tree, succeeds: the root keeps its identity,
  its former content is gone, and its plain projection is the replacement value, member by
  member converted by the value converter. A \<open>Replace\<close> whose value is of the other kind
  raises NotImplemented and leaves the tree as it was.
\<close>

theorem C7_root_patch:
  assumes "p_path pt = []"
  shows "(p_op pt \<noteq> Replace \<longrightarrow> defaultApplyPatch h st pt = (st, Some NotImplemented))
    \<and> (p_op pt = Replace \<longrightarrow> y_root st = YMap i old \<longrightarrow> p_value pt = Ref a
        \<longrightarrow> map_of h a = Some (JSObject es) \<longrightarrow> distinct (map fst es)
        \<longrightarrow> list_all2 (denotes_tree h) (map snd es) ts
        \<longrightarrow> (\<exists>m n'. defaultApplyPatch h st pt = (\<lparr>y_root = YMap i m, y_next = n'\<rparr>, None)
              \<and> toJSON (YMap i m) = JObj (zip (map fst es) ts)))
    \<and> (p_op pt = Replace \<longrightarrow> y_root st = YArray j olds \<longrightarrow> p_value pt = Ref b
        \<longrightarrow> map_of h b = Some (JSArray vs) \<longrightarrow> list_all2 (denotes_tree h) vs us
        \<longrightarrow> (\<exists>ys n'. defaultApplyPatch h st pt = (\<lparr>y_root = YArray j ys, y_next = n'\<rparr>, None)
              \<and> toJSON (YArray j ys) = JArr us))
    \<and> (p_op pt = Replace \<longrightarrow> \<not> (is_YMap (y_root st) \<and> isJSONObject h (p_value pt))
        \<longrightarrow> \<not> (is_YArray (y_root st) \<and> isJSONArray h (p_value pt))
        \<longrightarrow> defaultApplyPatch h st pt = (st, Some NotImplemented))"
  using root_not_replace[OF assms] root_replace_map[OF assms] root_replace_array[OF assms]
    root_replace_mismatch[OF assms]
  by blast

theorem C7_root_patch_witness:
  "defaultApplyPatch [(0, JSObject [(''a'', Prim (PNum 1)), (''b'', Ref 1)]), (1, JSArray [Prim (PStr ''x'')])]
      \<lparr>y_root = YMap 0 [(''old'', YPrim PNull)], y_next = 1\<rparr>
      \<lparr>p_op = Add, p_path = [], p_value = Ref 0\<rparr>
     = (\<lparr>y_root = YMap 0 [(''old'', YPrim PNull)], y_next = 1\<rparr>, Some NotImplemented)
   \<and> (\<exists>m n'. defaultApplyPatch
        [(0, JSObject [(''a'', Prim (PNum 1)), (''b'', Ref 1)]), (1, JSArray [Prim (PStr ''x'')])]
        \<lparr>y_root = YMap 0 [(''old'', YPrim PNull)], y_next = 1\<rparr>
        \<lparr>p_op = Replace, p_path = [], p_value = Ref 0\<rparr>
       = (\<lparr>y_root = YMap 0 m, y_next = n'\<rparr>, None)
      \<and> toJSON (YMap 0 m) = JObj [(''a'', JPrim (PNum 1)), (''b'', JArr [JPrim (PStr ''x'')])])
   \<and> (\<exists>ys n'. defaultApplyPatch
        [(0, JSObject [(''a'', Prim (PNum 1)), (''b'', Ref 1)]), (1, JSArray [Prim (PStr ''x'')])]
        \<lparr>y_root = YArray 0 [YPrim PNull], y_next = 1\<rparr>
        \<lparr>p_op = Replace, p_path = [], p_value = Ref 1\<rparr>
       = (\<lparr>y_root = YArray 0 ys, y_next = n'\<rparr>, None)
      \<and> toJSON (YArray 0 ys) = JArr [JPrim (PStr ''x'')])
   \<and> defaultApplyPatch [(0, JSObject [(''a'', Prim (PNum 1)), (''b'', Ref 1)]), (1, JSArray [Prim (PStr ''x'')])]
      \<lparr>y_root = YMap 0 [(''old'', YPrim PNull)], y_next = 1\<rparr>
      \<lparr>p_op = Replace, p_path = [], p_value = Ref 1\<rparr>
     = (\<lparr>y_root = YMap 0 [(''old'', YPrim PNull)], y_next = 1\<rparr>, Some NotImplemented)"
proof -
  let ?h = "[(0, JSObject [(''a'', Prim (PNum 1)), (''b'', Ref 1)]), (1, JSArray [Prim (PStr ''x'')])]"
  let ?m = "\<lparr>y_root = YMap 0 [(''old'', YPrim PNull)], y_next = 1\<rparr>"
  let ?a = "\<lparr>y_root = YArray 0 [YPrim PNull], y_next = 1\<rparr>"
  have arr: "denotes_tree ?h (Ref 1) (JArr (map JPrim [PStr ''x'']))"
    by (rule denotes_tree_prim_array) simp
  have members: "list_all2 (denotes_tree ?h) (map snd [(''a'', Prim (PNum 1)), (''b'', Ref 1)])
      [JPrim (PNum 1), JArr [JPrim (PStr ''x'')]]"
    using arr by (simp add: denotes_tree_prim)
  have items: "list_all2 (denotes_tree ?h) [Prim (PStr ''x'')] [JPrim (PStr ''x'')]"
    by (simp add: denotes_tree_prim)
  have c1: "defaultApplyPatch ?h ?m \<lparr>p_op = Add, p_path = [], p_value = Ref 0\<rparr>
      = (?m, Some NotImplemented)"
    using C7_root_patch[of "\<lparr>p_op = Add, p_path = [], p_value = Ref 0\<rparr>" ?h ?m] by simp
  have c2: "\<exists>m n'. defaultApplyPatch ?h ?m \<lparr>p_op = Replace, p_path = [], p_value = Ref 0\<rparr>
       = (\<lparr>y_root = YMap 0 m, y_next = n'\<rparr>, None)
      \<and> toJSON (YMap 0 m) = JObj [(''a'', JPrim (PNum 1)), (''b'', JArr [JPrim (PStr ''x'')])]"
    using C7_root_patch[of "\<lparr>p_op = Replace, p_path = [], p_value = Ref 0\<rparr>" ?h ?m
        0 "[(''old'', YPrim PNull)]" 0 "[(''a'', Prim (PNum 1)), (''b'', Ref 1)]"
        "[JPrim (PNum 1), JArr [JPrim (PStr ''x'')]]"] members
    by simp
  have c3: "\<exists>ys n'. defaultApplyPatch ?h ?a \<lparr>p_op = Replace, p_path = [], p_value = Ref 1\<rparr>
       = (\<lparr>y_root = YArray 0 ys, y_next = n'\<rparr>, None)
      \<and> toJSON (YArray 0 ys) = JArr [JPrim (PStr ''x'')]"
    using C7_root_patch[of "\<lparr>p_op = Replace, p_path = [], p_value = Ref 1\<rparr>" ?h ?a
        undefined undefined undefined undefined undefined 0 "[YPrim PNull]" 1
        "[Prim (PStr ''x'')]" "[JPrim (PStr ''x'')]"] items
    by simp
  have c4: "defaultApplyPatch ?h ?m \<lparr>p_op = Replace, p_path = [], p_value = Ref 1\<rparr>
      = (?m, Some NotImplemented)"
    using C7_root_patch[of "\<lparr>p_op = Replace, p_path = [], p_value = Ref 1\<rparr>" ?h ?m]
    by (simp add: isJSONObject_def isJSONArray_def)
  from c1 c2 c3 c4 show ?thesis by blast
qed

section \<open>Errors of the converter\<close>

text \<open>The converter throws nothing but CircularReference.\<close>

lemma converter_errors:
  "toYDataType h v seen n = Inl e \<longrightarrow> e = CircularReference"
  "convItems h vs seen n = Inl e \<longrightarrow> e = CircularReference"
  "(\<exists>i es0. dest = YNewMap i es0) \<longrightarrow> applyJsonObject h dest es seen n = Inl e
     \<longrightarrow> e = CircularReference"
proof (induction h v seen n and h vs seen n and h dest es seen n
    rule: toYDataType_convItems_applyJsonObject.induct)
  case (1 h v seen n)
  then show ?case
    by (cases v) (auto split: option.splits jsobj.splits sum.splits if_splits)
next
  case (2 h seen n)
  then show ?case by simp
next
  case (3 h v vs seen n)
  then show ?case by (auto split: sum.splits)
next
  case (4 h dest seen n)
  then show ?case by simp
next
  case (5 h dest k v es seen n)
  then show ?case by (auto split: sum.splits)
qed

lemma toYDataType_errors: "toYDataType h v seen n = Inl e \<Longrightarrow> e = CircularReference"
  using converter_errors(1) by blast





section \<open>Errors of the converter inside a patch\<close>

text \<open>Integration throws nothing but the \<open>TypeError\<close> of \<^verbatim>\<open>undefined\<close> in a sequence.\<close>

lemma integrate_errors:
  "\<forall>y' e. integrate y = (y', Some e) \<longrightarrow> e = TypeError"
  "\<forall>r e. integrate_entries acc es = (r, Some e) \<longrightarrow> e = TypeError"
  "\<forall>r e. insert_generics buf ins zs = (r, Some e) \<longrightarrow> e = TypeError"
proof (induction y and acc es and buf ins zs rule: integrate_integrate_entries_insert_generics.induct)
  case (8 acc k y es)
  then show ?case by (auto split: prod.splits option.splits)
next
  case (10 buf acc z zs)
  then show ?case by (cases z) (auto split: prod.splits option.splits)
qed (auto split: prod.splits)

lemma y_set_errors: "y_set d k y = (d', Some e) \<Longrightarrow> e = TypeError"
  using integrate_errors(1)[of y] by (cases d) (auto split: prod.splits)

lemma y_push_errors: "y_push d zs = (d', Some e) \<Longrightarrow> e = TypeError"
  using integrate_errors(3)[of "[]" "[]" zs] by (cases d) (auto split: prod.splits)

lemma y_insert_errors: "y_insert base j zs = (b, Some e) \<Longrightarrow> e = LengthExceeded \<or> e = TypeError"
  using integrate_errors(3)[of "[]" "[]" zs]
  by (cases base) (auto split: if_splits prod.splits)

lemma y_delete_errors: "y_delete base j len = (b, Some e) \<Longrightarrow> e = LengthExceeded"
  by (cases base) (auto simp: Let_def split: if_splits)














section \<open>Replacing an element of a sequence container\<close>

text \<open>The two branches of the replace case on a sequence container, where they are
  reached: a keyed container replaced by an object is cleared and repopulated under its own
  identity; in every other case with a replacement that is not \<^verbatim>\<open>null\<close> over a keyed
  container, one element is deleted and the converted replacement inserted in its place.\<close>

lemma replace_element_in_place:
  assumes "j < length ys" and "ys ! j = YMap k old" and "map_of h a = Some (JSObject es)"
    and "distinct (map fst es)" and "list_all2 (denotes_tree h) (map snd es) ts"
  shows "\<exists>m n'. apply_at_base h (YArray i ys) n Replace (KNum j) (Ref a)
             = ((YArray i (ys[j := YMap k m]), n'), None)
           \<and> toJSON (YMap k m) = JObj (zip (map fst es) ts)"
proof -
  from set_converted_trees[OF assms(5), of k "[]" n] obtain zs n' where
    r: "set_converted h (YMap k []) es n
          = ((YMap k (fold (\<lambda>(k, y). AList.update k y) (zip (map fst es) zs) []), n'), None)"
    and js: "map toJSON zs = ts" by blast
  from js assms(5) have len: "length zs = length (map fst es)"
    by (metis length_map list_all2_lengthD)
  have "distinct (map fst (zip (map fst es) zs))"
    using assms(4) len by simp
  from fold_update_fresh[OF this, of "[]"]
  have fu: "fold (\<lambda>(k, y). AList.update k y) (zip (map fst es) zs) [] = zip (map fst es) zs"
    by simp
  have "apply_at_base h (YArray i ys) n Replace (KNum j) (Ref a)
      = ((YArray i (ys[j := YMap k (zip (map fst es) zs)]), n'), None)"
    using assms(1,2,3) r fu
    by (simp add: apply_at_base_def isJSONObject_def isJSONArray_def object_entries_def)
  moreover have "toJSON (YMap k (zip (map fst es) zs)) = JObj (zip (map fst es) ts)"
    unfolding js[symmetric] by (simp add: zip_map2)
  ultimately show ?thesis by blast
qed

lemma replace_element_full:
  assumes "j < length ys" and "\<not> (is_YMap (ys ! j) \<and> isJSONObject h v)"
    and "toYDataType h v [] n = Inr (y, added, n')" and "fresh y"
  shows "apply_at_base h (YArray i ys) n Replace (KNum j) v
           = ((YArray i (take j ys @ [attached y] @ drop (Suc j) ys), n'), None)"
proof -
  from assms(1) have m: "min (length ys) j = j" by simp
  have "j \<le> length (take j ys @ drop (Suc j) ys)" using assms(1) by simp
  from y_insert_fresh[OF assms(4) this, of i] m assms show ?thesis
    by (auto simp: apply_at_base_def simp del: y_insert.simps)
qed

text \<open>
  Claim C5 at the input of the repository's test \<^verbatim>\<open>should handle array element updated
  to null\<close>: the sequence \<^verbatim>\<open>items\<close> holds three keyed containers and the patch
  replaces element 1 by \<^verbatim>\<open>null\<close>. The claim (and the test) ask for one element deleted
  and \<^verbatim>\<open>null\<close> inserted at index 1. As \<open>isJSONObject\<close> holds of \<^verbatim>\<open>null\<close>, the
  code takes the in-place branch: it clears the keyed container at index 1 and then throws
  a \<open>TypeError\<close> from \<^verbatim>\<open>Object.entries(null)\<close>.
\<close>

theorem C5_replace_by_null_throws:
  "defaultApplyPatch []
     \<lparr>y_root = YMap 0 [(''items'', YArray 1
         [YMap 2 [(''id'', YPrim (PNum 1))], YMap 3 [(''id'', YPrim (PNum 2))],
          YMap 4 [(''id'', YPrim (PNum 3))]])], y_next = 5\<rparr>
     \<lparr>p_op = Replace, p_path = [KStr ''items'', KNum 1], p_value = Prim PNull\<rparr>
   = (\<lparr>y_root = YMap 0 [(''items'', YArray 1
         [YMap 2 [(''id'', YPrim (PNum 1))], YMap 3 [],
          YMap 4 [(''id'', YPrim (PNum 3))]])], y_next = 5\<rparr>, Some TypeError)"
  by (simp add: defaultApplyPatch_def apply_at_base_def isJSONObject_def isJSONArray_def
      object_entries_def)

section \<open>Replay of a sequence delta\<close>

lemma apply_change_change_of:
  "apply_change (cursor, arr) (change_of (Retain n)) = (cursor + n, arr)"
  "apply_change (cursor, arr) (change_of (Delete n)) = (cursor, take cursor arr @ drop (cursor + n) arr)"
  "apply_change (cursor, arr) (change_of (Insert ys))
     = (cursor + length ys, take cursor arr @ map toPlainValue ys @ drop cursor arr)"
  by (simp_all add: apply_change_def js_splice_def)

lemma map_toPlainValue: "map toPlainValue ys = map toJSON ys"
  by (simp add: toPlainValue_toJSON)

lemma foldl_apply_change_replay:
  "snd (foldl apply_change (cursor, arr) (map change_of ds)) = replay_spec cursor arr ds"
proof (induction ds arbitrary: cursor arr)
  case Nil
  then show ?case by simp
next
  case (Cons d ds)
  then show ?case
    by (cases d) (simp_all add: apply_change_change_of map_toPlainValue del: change_of.simps)
qed

text \<open>
  Claim C6: on a sequence base, a sequence-container event whose deltas are the retain,
  delete and insert objects reported by the engine is translated by the replay of the spec:
  from cursor 0, left to right in the order reported, a retain advancing the cursor only, a
  delete removing at the cursor only, an insert splicing the plain projections of the
  inserted elements at the cursor and advancing it by their number. The replay of the spec
  projects with \<open>toJSON\<close>, the deep snapshot of section 4.1; the code projects with its
  \<^verbatim>\<open>toPlainValue\<close>.
\<close>

theorem C6_sequence_delta_replay:
  "applyYEvent (JArr arr) (YArrayEvent path (map change_of ds)) = Inr (JArr (replay_spec 0 arr ds))"
  by (simp add: foldl_apply_change_replay)

section \<open>One pass over the subscriber set\<close>

lemma subscription_fold_unsubscribe:
  "b_subscription (fold unsubscribe gs b)
     = map (\<lambda>e. if e \<in> Some ` set gs then None else e) (b_subscription b)"
proof (induction gs arbitrary: b)
  case Nil
  then show ?case by (simp add: map_idI)
next
  case (Cons g gs)
  have "b_subscription (fold unsubscribe (g # gs) b)
      = map (\<lambda>e. if e \<in> Some ` set gs then None else e) (b_subscription (unsubscribe g b))"
    by (simp add: Cons.IH)
  also have "b_subscription (unsubscribe g b)
      = map (\<lambda>e. if e = Some g then None else e) (b_subscription b)"
    by (simp add: unsubscribe_def set_delete_def)
  finally show ?case by auto
qed



lemma subscription_call_listener:
  "b_subscription (call_listener beh f b)
     = map (\<lambda>e. if e \<in> Some ` set (beh f) then None else e) (b_subscription b)"
  by (simp add: call_listener_def subscription_fold_unsubscribe)




lemma nth_subscription_call_listener:
  assumes "p < length (b_subscription b)"
  shows "b_subscription (call_listener beh f b) ! p
     = (if b_subscription b ! p \<in> Some ` set (beh f) then None else b_subscription b ! p)"
  using assms by (simp add: subscription_call_listener)

lemma nth_call_listener_Some:
  assumes "p < length (b_subscription b)" and "b_subscription (call_listener beh f b) ! p = Some g"
  shows "b_subscription b ! p = Some g"
  using assms by (simp add: nth_subscription_call_listener split: if_splits)








lemma length_subscription_forEach_from:
  "length (b_subscription (forEach_from beh i b)) = length (b_subscription b)"
proof (induction beh i b rule: forEach_from.induct)
  case (1 beh i b)
  show ?case
  proof (cases "i < length (b_subscription b)")
    case False
    then show ?thesis by (simp add: forEach_from.simps)
  next
    case True
    show ?thesis
    proof (cases "b_subscription b ! i")
      case None
      with True "1.IH"(1) show ?thesis by (simp add: forEach_from.simps[of beh i b])
    next
      case (Some f)
      with True "1.IH"(2) show ?thesis
        by (simp add: forEach_from.simps[of beh i b] length_subscription_call_listener)
    qed
  qed
qed

text \<open>The pass adds no entry: an entry of the set after the pass was there before.\<close>

lemma nth_forEach_from_Some:
  assumes "p < length (b_subscription b)" and "b_subscription (forEach_from beh i b) ! p = Some g"
  shows "b_subscription b ! p = Some g"
  using assms
proof (induction beh i b rule: forEach_from.induct)
  case (1 beh i b)
  show ?case
  proof (cases "i < length (b_subscription b)")
    case False
    with "1.prems" show ?thesis by (simp add: forEach_from.simps)
  next
    case True
    show ?thesis
    proof (cases "b_subscription b ! i")
      case None
      with True "1.IH"(1) "1.prems" show ?thesis by (simp add: forEach_from.simps[of beh i b])
    next
      case (Some f)
      let ?b = "call_listener beh f b"
      from "1.prems"(1) have "p < length (b_subscription ?b)"
        by (simp add: length_subscription_call_listener)
      moreover from "1.prems"(2) True Some
      have "b_subscription (forEach_from beh (Suc i) ?b) ! p = Some g"
        by (simp add: forEach_from.simps[of beh i b])
      ultimately have "b_subscription ?b ! p = Some g"
        by (rule "1.IH"(2)[OF True Some])
      with "1.prems"(1) show ?thesis by (rule nth_call_listener_Some)
    qed
  qed
qed


subsection \<open>The listeners in the set\<close>

lemma live_Cons:
  "live (e # s) = (case e of None \<Rightarrow> live s | Some g \<Rightarrow> g # live s)"
  by (cases e) (simp_all add: live_def)

lemma set_live: "set (live s) = {f. Some f \<in> set s}"
  by (induction s) (auto simp: live_Cons live_def split: option.splits)

lemma live_nth: "f \<in> set (live s) \<longleftrightarrow> (\<exists>p < length s. s ! p = Some f)"
  by (simp add: set_live in_set_conv_nth)

lemma distinct_live_unique:
  assumes "distinct (live s)" and "p < length s" and "q < length s"
    and "s ! p = Some f" and "s ! q = Some f"
  shows "p = q"
  using assms
proof (induction s arbitrary: p q)
  case Nil
  then show ?case by simp
next
  case (Cons e s)
  show ?case
  proof (cases p)
    case 0
    note p0 = 0
    show ?thesis
    proof (cases q)
      case 0
      with p0 show ?thesis by simp
    next
      case (Suc q')
      with Cons.prems p0 have "e = Some f" "Some f \<in> set s" by (auto simp: in_set_conv_nth)
      with Cons.prems(1) show ?thesis by (simp add: live_Cons set_live)
    qed
  next
    case (Suc p')
    note sp = Suc
    show ?thesis
    proof (cases q)
      case 0
      with Cons.prems sp have "e = Some f" "Some f \<in> set s" by (auto simp: in_set_conv_nth)
      with Cons.prems(1) show ?thesis by (simp add: live_Cons set_live)
    next
      case (Suc q')
      from Cons.prems(1) have "distinct (live s)"
        by (cases e) (simp_all add: live_Cons)
      from Cons.IH[OF this, of p' q'] Cons.prems sp Suc show ?thesis by simp
    qed
  qed
qed







lemma set_add_idem: "set_add (set_add s f) f = set_add s f"
  by (simp add: set_add_def)

subsection \<open>One notification\<close>






subsection \<open>The set holds a listener once\<close>

text \<open>No operation of a binder puts a listener into the set twice: the sets reached from
  \<open>bind\<close> satisfy the hypothesis \<open>distinct (live s)\<close> of the lemmas on notifications.\<close>

lemma distinct_live_iff:
  "distinct (live s) \<longleftrightarrow>
     (\<forall>p q f. p < length s \<and> q < length s \<and> s ! p = Some f \<and> s ! q = Some f \<longrightarrow> p = q)"
proof
  assume "distinct (live s)"
  then show "\<forall>p q f. p < length s \<and> q < length s \<and> s ! p = Some f \<and> s ! q = Some f \<longrightarrow> p = q"
    using distinct_live_unique by blast
next
  show "\<forall>p q f. p < length s \<and> q < length s \<and> s ! p = Some f \<and> s ! q = Some f \<longrightarrow> p = q
    \<Longrightarrow> distinct (live s)"
  proof (induction s)
    case Nil
    then show ?case by (simp add: live_def)
  next
    case (Cons e s)
    have u: "\<forall>p q f. p < length s \<and> q < length s \<and> s ! p = Some f \<and> s ! q = Some f \<longrightarrow> p = q"
    proof (intro allI impI)
      fix p q f
      assume "p < length s \<and> q < length s \<and> s ! p = Some f \<and> s ! q = Some f"
      then have "Suc p < length (e # s) \<and> Suc q < length (e # s)
          \<and> (e # s) ! Suc p = Some f \<and> (e # s) ! Suc q = Some f" by simp
      with Cons.prems have "Suc p = Suc q" by blast
      then show "p = q" by simp
    qed
    from Cons.IH[OF u] have d: "distinct (live s)" .
    show ?case
    proof (cases e)
      case None
      with d show ?thesis by (simp add: live_Cons)
    next
      case (Some g)
      have "g \<notin> set (live s)"
      proof
        assume "g \<in> set (live s)"
        then obtain q where q: "q < length s" "s ! q = Some g" by (auto simp: live_nth)
        then have "0 < length (e # s) \<and> Suc q < length (e # s)
            \<and> (e # s) ! 0 = Some g \<and> (e # s) ! Suc q = Some g" by (simp add: Some)
        with Cons.prems have "0 = Suc q" by blast
        then show False by simp
      qed
      with d Some show ?thesis by (simp add: live_Cons)
    qed
  qed
qed

lemma distinct_live_bind: "distinct (live (b_subscription (bind source opts)))"
  by (simp add: bind_def live_def)




lemma distinct_live_notify:
  assumes "distinct (live (b_subscription b))"
  shows "distinct (live (b_subscription (notify beh b)))"
  unfolding distinct_live_iff notify_def
  using assms[unfolded distinct_live_iff] nth_forEach_from_Some[of _ b beh 0]
  by (metis length_subscription_forEach_from)

section \<open>Subscribing and unsubscribing\<close>


lemma subscribe_twice:
  "subscribe beh f False (subscribe beh f False b) = subscribe beh f False b"
  by (simp add: subscribe_def set_add_idem)





section \<open>Errors of the default patch applier\<close>

lemma set_converted_errors:
  "set_converted h dest es n = (r, Some e) \<Longrightarrow> e = CircularReference \<or> e = TypeError"
proof (induction es arbitrary: dest n)
  case Nil
  then show ?case by simp
next
  case (Cons kv es)
  obtain k v where kv: "kv = (k, v)" by (cases kv)
  from Cons show ?case
    by (auto simp: kv simp del: y_set.simps dest: toYDataType_errors y_set_errors
        split: sum.splits prod.splits option.splits)
qed

lemma convEach_errors: "convEach h vs n = Inl e \<Longrightarrow> e = CircularReference"
proof (induction vs arbitrary: n)
  case Nil
  then show ?case by simp
next
  case (Cons v vs)
  then show ?case
    by (auto dest: toYDataType_errors split: sum.splits)
qed

lemma object_entries_errors: "object_entries h v = Inl e \<Longrightarrow> e = TypeError"
  by (auto simp: object_entries_def split: jsval.splits prim.splits option.splits jsobj.splits)

lemma to_number_errors: "to_number v = Inl e \<Longrightarrow> e = NotModelled"
  by (auto simp: to_number_def split: jsval.splits prim.splits option.splits)

lemma apply_at_base_errors:
  assumes "apply_at_base h base n opr property v = (r, Some e)"
  shows "e \<noteq> InvalidConfiguration"
proof (cases property)
  case (KStr k)
  show ?thesis
  proof (cases "is_YMap base")
    case True
    with assms KStr show ?thesis
      by (cases opr)
        (auto simp: apply_at_base_def simp del: y_set.simps
          dest: toYDataType_errors y_set_errors split: sum.splits prod.splits)
  next
    case False
    with assms KStr show ?thesis
      by (auto simp: apply_at_base_def Let_def simp del: y_delete.simps y_push.simps
          dest: y_delete_errors y_push_errors to_number_errors
          split: if_splits option.splits prod.splits sum.splits)
  qed
next
  case (KNum j)
  show ?thesis
  proof (cases "is_YArray base")
    case False
    with assms KNum show ?thesis by (auto simp: apply_at_base_def)
  next
    case True
    show ?thesis
    proof (cases opr)
      case Add
      with assms True KNum show ?thesis
        by (auto simp: apply_at_base_def simp del: y_insert.simps
            dest: toYDataType_errors y_insert_errors split: sum.splits prod.splits)
    next
      case Replace
      show ?thesis
      proof (cases "is_YMap (y_get base property) \<and> isJSONObject h v")
        case True
        with assms \<open>is_YArray base\<close> KNum Replace show ?thesis
          by (auto simp: apply_at_base_def Let_def
              dest: object_entries_errors set_converted_errors
              split: sum.splits prod.splits)
      next
        case False
        with assms True KNum Replace show ?thesis
          by (auto simp: apply_at_base_def simp del: y_insert.simps y_delete.simps
              dest: toYDataType_errors y_insert_errors y_delete_errors
              split: sum.splits prod.splits option.splits)
      qed
    next
      case Remove
      with assms True KNum show ?thesis
        by (auto simp: apply_at_base_def simp del: y_delete.simps dest: y_delete_errors
            split: prod.splits)
    qed
  qed
qed

lemma navigate_errors: "navigate base path = Inl e \<Longrightarrow> e = TypeError"
  by (induction path arbitrary: base) (auto split: if_splits)

lemma defaultApplyPatch_errors:
  assumes "snd (defaultApplyPatch h st pt) = Some e"
  shows "e \<noteq> InvalidConfiguration"
proof (cases "p_path pt = []")
  case True
  with assms show ?thesis
    by (auto simp: defaultApplyPatch_def Let_def simp del: y_push.simps
        dest: set_converted_errors convEach_errors y_push_errors
        split: if_splits prod.splits sum.splits)
next
  case False
  show ?thesis
  proof (cases "navigate (y_root st) (butlast (p_path pt))")
    case (Inl e')
    with assms False show ?thesis
      by (auto simp: defaultApplyPatch_def dest: navigate_errors)
  next
    case (Inr base)
    with assms False show ?thesis
      by (auto simp: defaultApplyPatch_def Let_def dest: apply_at_base_errors
          split: prod.splits)
  qed
qed

section \<open>Transactions of the library's own origin\<close>

lemma observer_own_origin: "observer beh events MUTATIVE_YJS_ORIGIN b = (b, None)"
  by (simp add: observer_def)

lemma dispatch_own_origin: "dispatch beh events MUTATIVE_YJS_ORIGIN bs = (bs, None)"
  by (induction bs) (simp_all add: observer_own_origin)

lemma transact_own_origin: "transact ev beh MUTATIVE_YJS_ORIGIN body w = body w"
proof -
  obtain w1 err where b: "body w = (w1, err)" by (cases "body w")
  show ?thesis
    by (cases err) (simp_all add: transact_def b dispatch_own_origin Let_def)
qed

lemma update_rejected:
  assumes "config_rejected (patchesOptionsInOption (b_options (w_binders w ! i)))"
  shows "update h ev beh i fn w = (w, Some InvalidConfiguration)"
  using assms by (simp add: update_def)

lemma update_accepted:
  assumes "\<not> config_rejected (patchesOptionsInOption (b_options (w_binders w ! i)))"
  shows "update h ev beh i fn w =
     (case doApplyUpdate h i fn (patchesOptionsInOption (b_options (w_binders w ! i))) w of
        (w1, Some e) \<Rightarrow> (w1, Some e)
      | (w1, None) \<Rightarrow> (notify_binder beh i w1, None))"
  using assms by (simp add: update_def transact_own_origin Let_def)

lemma apply_patches_errors:
  assumes "\<forall>st pt. snd (ap st pt) \<noteq> Some InvalidConfiguration"
  shows "snd (apply_patches ap source patches) \<noteq> Some InvalidConfiguration"
proof (induction patches arbitrary: source)
  case Nil
  then show ?case by simp
next
  case (Cons pt patches)
  obtain s' err where a: "ap source pt = (s', err)" by (cases "ap source pt")
  show ?case
  proof (cases err)
    case None
    with a Cons show ?thesis by simp
  next
    case (Some e)
    from assms a Some have "e \<noteq> InvalidConfiguration" by (metis snd_conv)
    with a Some show ?thesis by simp
  qed
qed

lemma doApplyUpdate_errors:
  assumes "\<forall>st pt. snd (applyPatch h (b_options (w_binders w ! i)) st pt) \<noteq> Some InvalidConfiguration"
  shows "snd (doApplyUpdate h i fn po w) \<noteq> Some InvalidConfiguration"
proof -
  let ?ap = "applyPatch h (b_options (w_binders w ! i))"
  obtain nextState patches where f: "fn po (get (w_binders w ! i)) = (nextState, patches)"
    by (cases "fn po (get (w_binders w ! i))")
  obtain s' err where a: "apply_patches ?ap (w_source w) patches = (s', err)"
    by (cases "apply_patches ?ap (w_source w) patches")
  from apply_patches_errors[OF assms, of "w_source w" patches] a
  have "err \<noteq> Some InvalidConfiguration" by simp
  then show ?thesis
    by (cases err) (simp_all add: doApplyUpdate_def applyUpdate_def f a)
qed

lemma applyPatch_default_errors:
  "snd (applyPatch h None st pt) \<noteq> Some InvalidConfiguration"
  using defaultApplyPatch_errors[of h st pt] by (auto simp: applyPatch_def)

lemma applyPatch_no_hook_errors:
  assumes "opt_applyPatch opt = None"
  shows "snd (applyPatch h (Some opt) st pt) \<noteq> Some InvalidConfiguration"
  using defaultApplyPatch_errors[of h st pt] assms by (auto simp: applyPatch_def)

lemma config_rejected_iff:
  "config_rejected (patchesOptionsInOption opts)
     \<longleftrightarrow> \<not> (patchesOptionsInOption opts = CBool True
            \<or> (\<exists>cfg. patchesOptionsInOption opts = CObject cfg))"
  by (auto simp: config_rejected_def patchesOptionsInOption_def typeof_object_def
      split: option.splits js_conf.splits)

section \<open>The patches options\<close>

text \<open>
  Claim C3, as stated, at the boolean \<^verbatim>\<open>false\<close>: a binder made with
  \<^verbatim>\<open>patchesOptions: false\<close> on an empty keyed container. The setting is a boolean,
  and \<open>update\<close> throws the configuration error.
\<close>

theorem C3_false_rejected_counterexample:
  "update [] (\<lambda>pre post. []) (\<lambda>f. []) 0 (\<lambda>po s. (s, []))
     \<lparr>w_source = \<lparr>y_root = YMap 0 [], y_next = 1\<rparr>,
      w_binders = [bind (YMap 0 []) (Some \<lparr>opt_applyPatch = None, opt_patchesOptions = CBool False\<rparr>)]\<rparr>
   = (\<lparr>w_source = \<lparr>y_root = YMap 0 [], y_next = 1\<rparr>,
       w_binders = [bind (YMap 0 []) (Some \<lparr>opt_applyPatch = None, opt_patchesOptions = CBool False\<rparr>)]\<rparr>,
      Some InvalidConfiguration)"
  by (simp add: update_def bind_def patchesOptionsInOption_def config_rejected_def
      typeof_object_def)

text \<open>
  Claim C3, amended: the resolved setting is \<^verbatim>\<open>patchesOptions\<close>, or \<^verbatim>\<open>true\<close> when the
  options or the setting are missing or \<^verbatim>\<open>null\<close>. When it is \<^verbatim>\<open>true\<close> or a
  configuration object, \<open>update\<close> raises no configuration error (given a patch applier
  that raises none, as the default one). For every other resolved value, the boolean
  \<^verbatim>\<open>false\<close> included, \<open>update\<close> throws InvalidConfiguration before anything else is
  done: the snapshots, the subscriber sets and the CRDT tree are as before.
\<close>

theorem C3_patches_options:
  assumes "po = patchesOptionsInOption (b_options (w_binders w ! i))"
  shows "(po = CBool True \<or> (\<exists>cfg. po = CObject cfg)
        \<longrightarrow> (\<forall>st pt. snd (applyPatch h (b_options (w_binders w ! i)) st pt) \<noteq> Some InvalidConfiguration)
        \<longrightarrow> snd (update h ev beh i fn w) \<noteq> Some InvalidConfiguration)
    \<and> (\<not> (po = CBool True \<or> (\<exists>cfg. po = CObject cfg))
        \<longrightarrow> update h ev beh i fn w = (w, Some InvalidConfiguration))"
proof (intro conjI impI)
  assume ok: "po = CBool True \<or> (\<exists>cfg. po = CObject cfg)"
    and ap: "\<forall>st pt. snd (applyPatch h (b_options (w_binders w ! i)) st pt) \<noteq> Some InvalidConfiguration"
  from ok have acc: "\<not> config_rejected (patchesOptionsInOption (b_options (w_binders w ! i)))"
    unfolding assms config_rejected_iff by simp
  obtain w1 err where d: "doApplyUpdate h i fn po w = (w1, err)"
    by (cases "doApplyUpdate h i fn po w")
  from doApplyUpdate_errors[OF ap, of fn po] d have "err \<noteq> Some InvalidConfiguration" by simp
  then show "snd (update h ev beh i fn w) \<noteq> Some InvalidConfiguration"
    using d by (cases err) (simp_all add: update_accepted[OF acc] assms[symmetric])
next
  assume "\<not> (po = CBool True \<or> (\<exists>cfg. po = CObject cfg))"
  then have "config_rejected (patchesOptionsInOption (b_options (w_binders w ! i)))"
    unfolding assms config_rejected_iff by simp
  then show "update h ev beh i fn w = (w, Some InvalidConfiguration)"
    by (rule update_rejected)
qed

theorem C3_patches_options_witness:
  "snd (update [] (\<lambda>pre post. []) (\<lambda>f. []) 0
      (\<lambda>po s. (JObj [(''count'', JPrim (PNum 1))],
         [\<lparr>p_op = Add, p_path = [KStr ''count''], p_value = Prim (PNum 1)\<rparr>]))
      \<lparr>w_source = \<lparr>y_root = YMap 0 [], y_next = 1\<rparr>,
       w_binders = [bind (YMap 0 []) None]\<rparr>) \<noteq> Some InvalidConfiguration
   \<and> snd (update [] (\<lambda>pre post. []) (\<lambda>f. []) 0
      (\<lambda>po s. (JObj [(''count'', JPrim (PNum 1))],
         [\<lparr>p_op = Add, p_path = [KStr ''count''], p_value = Prim (PNum 1)\<rparr>]))
      \<lparr>w_source = \<lparr>y_root = YMap 0 [], y_next = 1\<rparr>,
       w_binders = [bind (YMap 0 [])
          (Some \<lparr>opt_applyPatch = None,
                 opt_patchesOptions = CObject \<lparr>pathAsArray = Some True,
                   arrayLengthAssignment = Some False\<rparr>\<rparr>)]\<rparr>) \<noteq> Some InvalidConfiguration
   \<and> update [] (\<lambda>pre post. []) (\<lambda>f. []) 0
      (\<lambda>po s. (JObj [(''count'', JPrim (PNum 1))],
         [\<lparr>p_op = Add, p_path = [KStr ''count''], p_value = Prim (PNum 1)\<rparr>]))
      \<lparr>w_source = \<lparr>y_root = YMap 0 [], y_next = 1\<rparr>,
       w_binders = [bind (YMap 0 [])
          (Some \<lparr>opt_applyPatch = None, opt_patchesOptions = CString ''invalid''\<rparr>)]\<rparr>
     = (\<lparr>w_source = \<lparr>y_root = YMap 0 [], y_next = 1\<rparr>,
         w_binders = [bind (YMap 0 [])
            (Some \<lparr>opt_applyPatch = None, opt_patchesOptions = CString ''invalid''\<rparr>)]\<rparr>,
        Some InvalidConfiguration)"
proof -
  let ?fn = "\<lambda>(po::js_conf) (s::json). (JObj [(''count'', JPrim (PNum 1))],
         [\<lparr>p_op = Add, p_path = [KStr ''count''], p_value = Prim (PNum 1)\<rparr>])"
  let ?cfg = "\<lparr>pathAsArray = Some True, arrayLengthAssignment = Some False\<rparr>"
  let ?w1 = "\<lparr>w_source = \<lparr>y_root = YMap 0 [], y_next = 1\<rparr>,
       w_binders = [bind (YMap 0 []) None]\<rparr>"
  let ?w2 = "\<lparr>w_source = \<lparr>y_root = YMap 0 [], y_next = 1\<rparr>,
       w_binders = [bind (YMap 0 [])
          (Some \<lparr>opt_applyPatch = None, opt_patchesOptions = CString ''invalid''\<rparr>)]\<rparr>"
  let ?w3 = "\<lparr>w_source = \<lparr>y_root = YMap 0 [], y_next = 1\<rparr>,
       w_binders = [bind (YMap 0 [])
          (Some \<lparr>opt_applyPatch = None, opt_patchesOptions = CObject ?cfg\<rparr>)]\<rparr>"
  have p1: "CBool True = patchesOptionsInOption (b_options (w_binders ?w1 ! 0))"
    by (simp add: bind_def patchesOptionsInOption_def)
  have ap1: "\<forall>st pt. snd (applyPatch [] (b_options (w_binders ?w1 ! 0)) st pt) \<noteq> Some InvalidConfiguration"
    by (simp add: bind_def applyPatch_default_errors)
  from C3_patches_options[OF p1, THEN conjunct1, of "[]" "\<lambda>pre post. []" "\<lambda>f. []" ?fn] ap1
  have c1: "snd (update [] (\<lambda>pre post. []) (\<lambda>f. []) 0 ?fn ?w1) \<noteq> Some InvalidConfiguration"
    by blast
  have p3: "CObject ?cfg = patchesOptionsInOption (b_options (w_binders ?w3 ! 0))"
    by (simp add: bind_def patchesOptionsInOption_def)
  have ap3: "\<forall>st pt. snd (applyPatch [] (b_options (w_binders ?w3 ! 0)) st pt) \<noteq> Some InvalidConfiguration"
    by (simp add: bind_def applyPatch_no_hook_errors)
  from C3_patches_options[OF p3, THEN conjunct1, of "[]" "\<lambda>pre post. []" "\<lambda>f. []" ?fn] ap3
  have c3: "snd (update [] (\<lambda>pre post. []) (\<lambda>f. []) 0 ?fn ?w3) \<noteq> Some InvalidConfiguration"
    by blast
  have p2: "CString ''invalid'' = patchesOptionsInOption (b_options (w_binders ?w2 ! 0))"
    by (simp add: bind_def patchesOptionsInOption_def)
  from C3_patches_options[OF p2, THEN conjunct2, of "[]" "\<lambda>pre post. []" "\<lambda>f. []" ?fn]
  have c2: "update [] (\<lambda>pre post. []) (\<lambda>f. []) 0 ?fn ?w2 = (?w2, Some InvalidConfiguration)"
    by simp
  from c1 c3 c2 show ?thesis by blast
qed

section \<open>One update, one notification\<close>

lemma doApplyUpdate_ok:
  assumes "doApplyUpdate h i fn po w = (w1, None)" and "i < length (w_binders w)"
  shows "w_binders w1 = (w_binders w)[i := (w_binders w ! i)\<lparr>b_snapshot := fst (fn po (get (w_binders w ! i)))\<rparr>]"
proof -
  let ?ap = "applyPatch h (b_options (w_binders w ! i))"
  obtain nextState patches where f: "fn po (get (w_binders w ! i)) = (nextState, patches)"
    by (cases "fn po (get (w_binders w ! i))")
  obtain s' err where a: "apply_patches ?ap (w_source w) patches = (s', err)"
    by (cases "apply_patches ?ap (w_source w) patches")
  from assms(1) show ?thesis
    by (cases err) (auto simp: doApplyUpdate_def applyUpdate_def f a)
qed

lemma doApplyUpdate_binders_error:
  assumes "doApplyUpdate h i fn po w = (w1, Some e)"
  shows "w_binders w1 = w_binders w"
proof -
  let ?ap = "applyPatch h (b_options (w_binders w ! i))"
  obtain nextState patches where f: "fn po (get (w_binders w ! i)) = (nextState, patches)"
    by (cases "fn po (get (w_binders w ! i))")
  obtain s' err where a: "apply_patches ?ap (w_source w) patches = (s', err)"
    by (cases "apply_patches ?ap (w_source w) patches")
  from assms(1) show ?thesis
    by (cases err) (auto simp: doApplyUpdate_def applyUpdate_def f a)
qed





text \<open>\<open>update\<close> of one binder leaves every other binder of the source as it was.\<close>

lemma update_other_binder:
  assumes "j \<noteq> i" and "i < length (w_binders w)"
  shows "w_binders (fst (update h ev beh i fn w)) ! j = w_binders w ! j"
proof (cases "config_rejected (patchesOptionsInOption (b_options (w_binders w ! i)))")
  case True
  then show ?thesis by (simp add: update_rejected)
next
  case False
  let ?po = "patchesOptionsInOption (b_options (w_binders w ! i))"
  obtain w1 err where d: "doApplyUpdate h i fn ?po w = (w1, err)"
    by (cases "doApplyUpdate h i fn ?po w")
  show ?thesis
  proof (cases err)
    case None
    from doApplyUpdate_ok[OF d[unfolded None] assms(2)] assms(1) d None False show ?thesis
      by (simp add: update_accepted notify_binder_def)
  next
    case (Some e)
    from doApplyUpdate_binders_error[OF d[unfolded Some]] d Some False show ?thesis
      by (simp add: update_accepted)
  qed
qed

section \<open>Subscribing one listener twice\<close>












section \<open>Two binders on one source\<close>

text \<open>
  A mutation made directly on the source (\<^verbatim>\<open>map.set('count', 42)\<close>, no origin) reaches
  both binders, as the repository's test \<^verbatim>\<open>should reflect direct Yjs mutations across
  binders\<close> expects; the engine reports the key added to the root.
\<close>

lemma external_mutation_seen_by_both:
  "map get (w_binders (fst (external_mutation
      (\<lambda>pre post. [YMapEvent [] post [(''count'', KAdd)]]) beh NullOrigin
      (\<lambda>st. st\<lparr>y_root := fst (y_set (y_root st) ''count'' (YPrim (PNum 42)))\<rparr>)
      \<lparr>w_source = \<lparr>y_root = YMap 0 [], y_next = 1\<rparr>,
       w_binders = [bind (YMap 0 []) None, bind (YMap 0 []) None]\<rparr>)))
     = [JObj [(''count'', JPrim (PNum 42))], JObj [(''count'', JPrim (PNum 42))]]"
  by (simp add: external_mutation_def transact_def observer_def MUTATIVE_YJS_ORIGIN_def
      get_def bind_def notify_def forEach_from.simps toPlainValue_def)

text \<open>
  Claim C1 at two binders bound to the same empty keyed container of a document, when the
  first one runs \<^verbatim>\<open>update((state) => { state.count = 1 })\<close>. Whatever events the engine
  reports and whatever the listeners do, the transaction carries the one origin symbol of
  the module, the observer of the second binder returns at once as the observer of the
  first does, and the snapshots differ afterwards: the first binder and the source hold
  \<^verbatim>\<open>{count: 1}\<close>, the second binder still holds \<^verbatim>\<open>{}\<close>.
\<close>

theorem C1_update_not_seen_by_other_binder:
  "snd (update [] ev beh 0
      (\<lambda>po s. (JObj [(''count'', JPrim (PNum 1))],
         [\<lparr>p_op = Add, p_path = [KStr ''count''], p_value = Prim (PNum 1)\<rparr>]))
      \<lparr>w_source = \<lparr>y_root = YMap 0 [], y_next = 1\<rparr>,
       w_binders = [bind (YMap 0 []) None, bind (YMap 0 []) None]\<rparr>) = None
   \<and> map get (w_binders (fst (update [] ev beh 0
      (\<lambda>po s. (JObj [(''count'', JPrim (PNum 1))],
         [\<lparr>p_op = Add, p_path = [KStr ''count''], p_value = Prim (PNum 1)\<rparr>]))
      \<lparr>w_source = \<lparr>y_root = YMap 0 [], y_next = 1\<rparr>,
       w_binders = [bind (YMap 0 []) None, bind (YMap 0 []) None]\<rparr>)))
     = [JObj [(''count'', JPrim (PNum 1))], JObj []]
   \<and> toJSON (y_root (w_source (fst (update [] ev beh 0
      (\<lambda>po s. (JObj [(''count'', JPrim (PNum 1))],
         [\<lparr>p_op = Add, p_path = [KStr ''count''], p_value = Prim (PNum 1)\<rparr>]))
      \<lparr>w_source = \<lparr>y_root = YMap 0 [], y_next = 1\<rparr>,
       w_binders = [bind (YMap 0 []) None, bind (YMap 0 []) None]\<rparr>))))
     = JObj [(''count'', JPrim (PNum 1))]"
proof -
  let ?w = "\<lparr>w_source = \<lparr>y_root = YMap 0 [], y_next = 1\<rparr>,
       w_binders = [bind (YMap 0 []) None, bind (YMap 0 []) None]\<rparr>"
  show ?thesis
    by (simp add: update_def transact_own_origin Let_def patchesOptionsInOption_def
        config_rejected_def doApplyUpdate_def applyUpdate_def applyPatch_def
        defaultApplyPatch_def apply_at_base_def get_def bind_def notify_binder_def notify_def
        forEach_from.simps)
qed


end
